theory Spec2Isabelle
  imports Main
begin

section \<open>Raw memory, element lifetimes and the element type\<close>

text \<open>
  The container of \<^verbatim>\<open>vector.h\<close> keeps raw storage apart from the lifetime of the
  elements built in it. A slot of a buffer is either raw memory or holds a live element.
  A buffer is the list of its slots; the heap maps an address to its buffer, and an
  address that holds no buffer to the empty list. A pointer \<^verbatim>\<open>T*\<close> is a buffer address
  (\<open>None\<close> for \<^verbatim>\<open>nullptr\<close>) together with an offset counted in slots.
\<close>

datatype 'a slot = Raw | Live 'a

datatype error = AllocationFailure | ElementConstructionFailure | Fault

datatype place = At "nat option" nat | Local

datatype event =
    Allocated nat nat
  | Released nat
  | Destroyed place
  | CopyConstructed place
  | MoveConstructed place
  | ValueConstructed place
  | CopyAssigned place
  | MoveAssigned place

text \<open>
  What the code asks of the element type \<^verbatim>\<open>T\<close>: the three type traits it branches on,
  the value a moved-from object is left with, and the value of a value-initialised object.
\<close>

record 'a traits =
  nothrow_move_constructible :: bool
  copy_constructible :: bool
  nothrow_move_assignable :: bool
  moved_from :: "'a \<Rightarrow> 'a"
  value_init :: 'a

text \<open>
  The world: the heap, the next address \<^verbatim>\<open>operator new\<close> hands out, the trace of
  allocations, releases, constructor, assignment and destructor calls (what an instrumented
  element type and allocator would count), and two budgets that decide when
  \<^verbatim>\<open>operator new\<close> and the copy constructor of \<^verbatim>\<open>T\<close> throw: \<open>None\<close> never,
  \<open>Some n\<close> after \<open>n\<close> further successes. Moves, assignments and value-initialisation are
  taken not to throw. \<open>Fault\<close> marks an access C++ leaves undefined: a read of a raw slot
  or an access outside a buffer.
\<close>

record 'a world =
  heap :: "nat \<Rightarrow> 'a slot list"
  next_addr :: nat
  trace :: "event list"
  alloc_budget :: "nat option"
  copy_budget :: "nat option"

type_synonym 'a step = "error option \<times> 'a world"

definition slots :: "'a world \<Rightarrow> nat option \<Rightarrow> 'a slot list" where
  "slots w p = (case p of None \<Rightarrow> [] | Some a \<Rightarrow> heap w a)"

definition store :: "nat option \<Rightarrow> nat \<Rightarrow> 'a slot \<Rightarrow> 'a world \<Rightarrow> 'a world" where
  "store p i s w =
     (case p of None \<Rightarrow> w | Some a \<Rightarrow> w\<lparr>heap := (heap w)(a := (heap w a)[i := s])\<rparr>)"

definition load :: "'a world \<Rightarrow> nat option \<Rightarrow> nat \<Rightarrow> 'a option" where
  "load w p i =
     (if i < length (slots w p)
      then (case slots w p ! i of Raw \<Rightarrow> None | Live x \<Rightarrow> Some x)
      else None)"

definition emit :: "event \<Rightarrow> 'a world \<Rightarrow> 'a world" where
  "emit e w = w\<lparr>trace := trace w @ [e]\<rparr>"

definition and_then :: "'a step \<Rightarrow> ('a world \<Rightarrow> 'a step) \<Rightarrow> 'a step" where
  "and_then r f = (case r of (None, w) \<Rightarrow> f w | (Some e, w) \<Rightarrow> (Some e, w))"

definition charge_alloc :: "'a world \<Rightarrow> 'a world option" where
  "charge_alloc w =
     (case alloc_budget w of
        None \<Rightarrow> Some w
      | Some b \<Rightarrow> if b = 0 then None else Some (w\<lparr>alloc_budget := Some (b - 1)\<rparr>))"

definition charge_copy :: "'a world \<Rightarrow> 'a world option" where
  "charge_copy w =
     (case copy_budget w of
        None \<Rightarrow> Some w
      | Some b \<Rightarrow> if b = 0 then None else Some (w\<lparr>copy_budget := Some (b - 1)\<rparr>))"

subsection \<open>Operations of the element type on slots\<close>

text \<open>\<^verbatim>\<open>new (p + i) T(x)\<close> with \<open>x\<close> a \<^verbatim>\<open>const T&\<close>: the copy constructor.\<close>

definition copy_construct_value :: "'a \<Rightarrow> nat option \<Rightarrow> nat \<Rightarrow> 'a world \<Rightarrow> 'a step" where
  "copy_construct_value x p i w =
     (if i < length (slots w p)
      then (case charge_copy w of
              None \<Rightarrow> (Some ElementConstructionFailure, w)
            | Some w' \<Rightarrow> (None, emit (CopyConstructed (At p i)) (store p i (Live x) w')))
      else (Some Fault, w))"

text \<open>\<^verbatim>\<open>new (p + i) T(std::move(x))\<close> with \<open>x\<close> an object outside the heap.\<close>

definition move_construct_value :: "'a \<Rightarrow> nat option \<Rightarrow> nat \<Rightarrow> 'a world \<Rightarrow> 'a step" where
  "move_construct_value x p i w =
     (if i < length (slots w p)
      then (None, emit (MoveConstructed (At p i)) (store p i (Live x) w))
      else (Some Fault, w))"

definition copy_construct ::
  "nat option \<Rightarrow> nat \<Rightarrow> nat option \<Rightarrow> nat \<Rightarrow> 'a world \<Rightarrow> 'a step" where
  "copy_construct sp si dp di w =
     (case load w sp si of
        None \<Rightarrow> (Some Fault, w)
      | Some x \<Rightarrow> copy_construct_value x dp di w)"

definition move_construct ::
  "'a traits \<Rightarrow> nat option \<Rightarrow> nat \<Rightarrow> nat option \<Rightarrow> nat \<Rightarrow> 'a world \<Rightarrow> 'a step" where
  "move_construct T sp si dp di w =
     (case load w sp si of
        None \<Rightarrow> (Some Fault, w)
      | Some x \<Rightarrow>
          if di < length (slots w dp)
          then (None, emit (MoveConstructed (At dp di))
                        (store sp si (Live (moved_from T x)) (store dp di (Live x) w)))
          else (Some Fault, w))"

definition value_construct :: "'a traits \<Rightarrow> nat option \<Rightarrow> nat \<Rightarrow> 'a world \<Rightarrow> 'a step" where
  "value_construct T p i w =
     (if i < length (slots w p)
      then (None, emit (ValueConstructed (At p i)) (store p i (Live (value_init T)) w))
      else (Some Fault, w))"

text \<open>Assignment needs a live object on both sides.\<close>

definition copy_assign_slot ::
  "nat option \<Rightarrow> nat \<Rightarrow> nat option \<Rightarrow> nat \<Rightarrow> 'a world \<Rightarrow> 'a step" where
  "copy_assign_slot sp si dp di w =
     (case (load w sp si, load w dp di) of
        (Some x, Some y) \<Rightarrow> (None, emit (CopyAssigned (At dp di)) (store dp di (Live x) w))
      | _ \<Rightarrow> (Some Fault, w))"

definition move_assign_slot ::
  "'a traits \<Rightarrow> nat option \<Rightarrow> nat \<Rightarrow> nat option \<Rightarrow> nat \<Rightarrow> 'a world \<Rightarrow> 'a step" where
  "move_assign_slot T sp si dp di w =
     (case (load w sp si, load w dp di) of
        (Some x, Some y) \<Rightarrow>
          (None, emit (MoveAssigned (At dp di))
                   (store sp si (Live (moved_from T x)) (store dp di (Live x) w)))
      | _ \<Rightarrow> (Some Fault, w))"

text \<open>\<^verbatim>\<open>*(p + i) = std::move(elem)\<close> with \<open>elem\<close> a local object.\<close>

definition move_assign_value :: "'a \<Rightarrow> nat option \<Rightarrow> nat \<Rightarrow> 'a world \<Rightarrow> 'a step" where
  "move_assign_value x dp di w =
     (case load w dp di of
        Some y \<Rightarrow> (None, emit (MoveAssigned (At dp di)) (store dp di (Live x) w))
      | None \<Rightarrow> (Some Fault, w))"

text \<open>
  A destructor call cannot report anything (it is \<^verbatim>\<open>noexcept\<close>): the call is recorded in
  the trace whatever the slot holds, and the slot is raw afterwards.
\<close>

definition destroy_at :: "nat option \<Rightarrow> nat \<Rightarrow> 'a world \<Rightarrow> 'a world" where
  "destroy_at p i w = emit (Destroyed (At p i)) (store p i Raw w)"

subsection \<open>The standard algorithms the container calls\<close>

fun destroy_n :: "nat option \<Rightarrow> nat \<Rightarrow> nat \<Rightarrow> 'a world \<Rightarrow> 'a world" where
  "destroy_n p i 0 w = w"
| "destroy_n p i (Suc n) w = destroy_n p (Suc i) n (destroy_at p i w)"

fun uninitialized_move_n ::
  "'a traits \<Rightarrow> nat option \<Rightarrow> nat \<Rightarrow> nat \<Rightarrow> nat option \<Rightarrow> nat \<Rightarrow> 'a world \<Rightarrow> 'a step" where
  "uninitialized_move_n T sp si 0 dp di w = (None, w)"
| "uninitialized_move_n T sp si (Suc n) dp di w =
     and_then (move_construct T sp si dp di w)
       (uninitialized_move_n T sp (Suc si) n dp (Suc di))"

text \<open>
  \<^verbatim>\<open>std::uninitialized_copy_n\<close>: when a copy throws, the elements already built in the
  destination, \<open>[dfirst, di)\<close>, are destroyed and the exception goes on.
\<close>

fun copy_loop ::
  "nat option \<Rightarrow> nat \<Rightarrow> nat \<Rightarrow> nat option \<Rightarrow> nat \<Rightarrow> nat \<Rightarrow> 'a world \<Rightarrow> 'a step" where
  "copy_loop sp si 0 dp dfirst di w = (None, w)"
| "copy_loop sp si (Suc n) dp dfirst di w =
     (case copy_construct sp si dp di w of
        (None, w') \<Rightarrow> copy_loop sp (Suc si) n dp dfirst (Suc di) w'
      | (Some e, w') \<Rightarrow> (Some e, destroy_n dp dfirst (di - dfirst) w'))"

definition uninitialized_copy_n ::
  "nat option \<Rightarrow> nat \<Rightarrow> nat \<Rightarrow> nat option \<Rightarrow> nat \<Rightarrow> 'a world \<Rightarrow> 'a step" where
  "uninitialized_copy_n sp si n dp di w = copy_loop sp si n dp di di w"

fun uninitialized_value_construct_n ::
  "'a traits \<Rightarrow> nat option \<Rightarrow> nat \<Rightarrow> nat \<Rightarrow> 'a world \<Rightarrow> 'a step" where
  "uninitialized_value_construct_n T p i 0 w = (None, w)"
| "uninitialized_value_construct_n T p i (Suc n) w =
     and_then (value_construct T p i w) (uninitialized_value_construct_n T p (Suc i) n)"

text \<open>\<^verbatim>\<open>std::copy(first, first + n, d_first)\<close>: copy assignment, front to back.\<close>

fun std_copy ::
  "nat option \<Rightarrow> nat \<Rightarrow> nat \<Rightarrow> nat option \<Rightarrow> nat \<Rightarrow> 'a world \<Rightarrow> 'a step" where
  "std_copy sp si 0 dp di w = (None, w)"
| "std_copy sp si (Suc n) dp di w =
     and_then (copy_assign_slot sp si dp di w) (std_copy sp (Suc si) n dp (Suc di))"

text \<open>
  \<^verbatim>\<open>std::move_backward(first, first + n, d_last)\<close>: move assignment, back to front:
  the last source element goes to \<open>d_last - 1\<close> first.
\<close>

fun move_backward ::
  "'a traits \<Rightarrow> nat option \<Rightarrow> nat \<Rightarrow> nat \<Rightarrow> nat \<Rightarrow> 'a world \<Rightarrow> 'a step" where
  "move_backward T p first 0 d_last w = (None, w)"
| "move_backward T p first (Suc n) d_last w =
     (if d_last = 0 then (Some Fault, w)
      else and_then (move_assign_slot T p (first + n) p (d_last - 1) w)
             (move_backward T p first n (d_last - 1)))"

section \<open>RawMemory\<close>

record raw_memory =
  buffer_m :: "nat option"
  capacity_m :: nat

definition raw_memory_default :: raw_memory where
  "raw_memory_default = \<lparr>buffer_m = None, capacity_m = 0\<rparr>"

definition Allocate :: "nat \<Rightarrow> 'a world \<Rightarrow> (error + nat option) \<times> 'a world" where
  "Allocate n w =
     (if n \<noteq> 0
      then (case charge_alloc w of
              None \<Rightarrow> (Inl AllocationFailure, w)
            | Some w' \<Rightarrow>
                (Inr (Some (next_addr w')),
                 emit (Allocated (next_addr w') n)
                   (w'\<lparr>heap := (heap w')(next_addr w' := replicate n Raw),
                       next_addr := Suc (next_addr w')\<rparr>)))
      else (Inr None, w))"

definition Deallocate :: "nat option \<Rightarrow> 'a world \<Rightarrow> 'a world" where
  "Deallocate buf w =
     (case buf of
        None \<Rightarrow> w
      | Some a \<Rightarrow> emit (Released a) (w\<lparr>heap := (heap w)(a := [])\<rparr>))"

definition raw_memory_ctor :: "nat \<Rightarrow> 'a world \<Rightarrow> (error + raw_memory) \<times> 'a world" where
  "raw_memory_ctor capacity w =
     (case Allocate capacity w of
        (Inl e, w') \<Rightarrow> (Inl e, w')
      | (Inr p, w') \<Rightarrow> (Inr \<lparr>buffer_m = p, capacity_m = capacity\<rparr>, w'))"

definition raw_memory_dtor :: "raw_memory \<Rightarrow> 'a world \<Rightarrow> 'a world" where
  "raw_memory_dtor m w = Deallocate (buffer_m m) w"

text \<open>\<^verbatim>\<open>Swap\<close> returns the pair (this, other) after the exchange.\<close>

definition raw_memory_Swap :: "raw_memory \<Rightarrow> raw_memory \<Rightarrow> raw_memory \<times> raw_memory" where
  "raw_memory_Swap this other =
     (this\<lparr>buffer_m := buffer_m other, capacity_m := capacity_m other\<rparr>,
      other\<lparr>buffer_m := buffer_m this, capacity_m := capacity_m this\<rparr>)"

text \<open>
  The move constructor starts from the default member initialisers and swaps; the result
  is (the new object, the moved-from source).
\<close>

definition raw_memory_move_ctor :: "raw_memory \<Rightarrow> raw_memory \<times> raw_memory" where
  "raw_memory_move_ctor other = raw_memory_Swap raw_memory_default other"

text \<open>
  Move assignment is \<^verbatim>\<open>Swap(rhs)\<close> and nothing else; the result is (this, rhs, world)
  after the call.
\<close>

definition raw_memory_move_assign ::
  "raw_memory \<Rightarrow> raw_memory \<Rightarrow> 'a world \<Rightarrow> raw_memory \<times> raw_memory \<times> 'a world" where
  "raw_memory_move_assign this rhs w =
     (case raw_memory_Swap this rhs of (t, r) \<Rightarrow> (t, r, w))"

section \<open>Vector\<close>

record vector =
  data_m :: raw_memory
  size_m :: nat

definition vector_default :: vector where
  "vector_default = \<lparr>data_m = raw_memory_default, size_m = 0\<rparr>"

definition Capacity :: "vector \<Rightarrow> nat" where
  "Capacity v = capacity_m (data_m v)"

definition begin_ptr :: "vector \<Rightarrow> nat option" where
  "begin_ptr v = buffer_m (data_m v)"

text \<open>\<^verbatim>\<open>size_t\<close> has 64 bits: \<^verbatim>\<open>size_ * 2\<close> wraps around.\<close>

definition growth_capacity :: "nat \<Rightarrow> nat" where
  "growth_capacity sz = (if sz = 0 then 1 else (sz * 2) mod 2 ^ 64)"

definition Destroy :: "nat option \<Rightarrow> nat \<Rightarrow> 'a world \<Rightarrow> 'a world" where
  "Destroy bp bi w = destroy_at bp bi w"

text \<open>
  \<^verbatim>\<open>for (size_t i = 0; i != n; ++i) { Destroy(buf); }\<close>: the loop passes \<open>buf\<close> itself
  at every turn.
\<close>

fun DestroyN :: "nat option \<Rightarrow> nat \<Rightarrow> nat \<Rightarrow> 'a world \<Rightarrow> 'a world" where
  "DestroyN bp bi 0 w = w"
| "DestroyN bp bi (Suc n) w = DestroyN bp bi n (Destroy bp bi w)"

definition vector_dtor :: "vector \<Rightarrow> 'a world \<Rightarrow> 'a world" where
  "vector_dtor v w = raw_memory_dtor (data_m v) (DestroyN (begin_ptr v) 0 (size_m v) w)"

definition Uninitialized ::
  "'a traits \<Rightarrow> nat option \<Rightarrow> nat \<Rightarrow> nat \<Rightarrow> nat option \<Rightarrow> nat \<Rightarrow> 'a world \<Rightarrow> 'a step" where
  "Uninitialized T dp di n np ni w =
     (if nothrow_move_constructible T \<or> \<not> copy_constructible T
      then uninitialized_move_n T dp di n np ni w
      else uninitialized_copy_n dp di n np ni w)"

text \<open>The result is (this, new_data, world) after the call.\<close>

definition DestroyAndSwap ::
  "vector \<Rightarrow> raw_memory \<Rightarrow> 'a world \<Rightarrow> vector \<times> raw_memory \<times> 'a world" where
  "DestroyAndSwap v new_data w =
     (case raw_memory_Swap (data_m v) new_data of
        (d, nd) \<Rightarrow> (v\<lparr>data_m := d\<rparr>, nd, destroy_n (begin_ptr v) 0 (size_m v) w))"

definition vector_Swap :: "vector \<Rightarrow> vector \<Rightarrow> vector \<times> vector" where
  "vector_Swap this other =
     (case raw_memory_Swap (data_m this) (data_m other) of
        (d, od) \<Rightarrow> (\<lparr>data_m = d, size_m = size_m other\<rparr>, \<lparr>data_m = od, size_m = size_m this\<rparr>))"

definition vector_copy_ctor :: "vector \<Rightarrow> 'a world \<Rightarrow> (error + vector) \<times> 'a world" where
  "vector_copy_ctor other w =
     (case raw_memory_ctor (size_m other) w of
        (Inl e, w1) \<Rightarrow> (Inl e, w1)
      | (Inr d, w1) \<Rightarrow>
          (case uninitialized_copy_n (begin_ptr other) 0 (size_m other) (buffer_m d) 0 w1 of
             (Some e, w2) \<Rightarrow> (Inl e, raw_memory_dtor d w2)
           | (None, w2) \<Rightarrow> (Inr \<lparr>data_m = d, size_m = size_m other\<rparr>, w2)))"

text \<open>The result is (the new vector, the moved-from source).\<close>

definition vector_move_ctor :: "vector \<Rightarrow> vector \<times> vector" where
  "vector_move_ctor other =
     (case raw_memory_move_ctor (data_m other) of
        (d, od) \<Rightarrow> (\<lparr>data_m = d, size_m = size_m other\<rparr>, \<lparr>data_m = od, size_m = 0\<rparr>))"

text \<open>
  Copy assignment. \<open>same\<close> is the outcome of \<^verbatim>\<open>this == &rhs\<close>; \<open>rhs\<close> is constant.
  The two \<^verbatim>\<open>if\<close> blocks of the in-place branch run one after the other, and
  the size is only written after both.
\<close>

definition vector_copy_assign ::
  "bool \<Rightarrow> vector \<Rightarrow> vector \<Rightarrow> 'a world \<Rightarrow> error option \<times> vector \<times> 'a world" where
  "vector_copy_assign same this rhs w =
     (if \<not> same then
        (if size_m rhs > Capacity this then
           (case vector_copy_ctor rhs w of
              (Inl e, w1) \<Rightarrow> (Some e, this, w1)
            | (Inr rhs_copy, w1) \<Rightarrow>
                (case vector_Swap this rhs_copy of
                   (this', rhs_copy') \<Rightarrow> (None, this', vector_dtor rhs_copy' w1)))
         else
           (case and_then
                   (if size_m rhs < size_m this
                    then and_then (std_copy (begin_ptr rhs) 0 (size_m rhs) (begin_ptr this) 0 w)
                           (\<lambda>w1. (None, destroy_n (begin_ptr this) (size_m rhs)
                                           (size_m this - size_m rhs) w1))
                    else (None, w))
                   (\<lambda>w2. if size_m rhs \<ge> size_m this
                         then and_then
                                (std_copy (begin_ptr rhs) 0 (size_m this) (begin_ptr this) 0 w2)
                                (uninitialized_copy_n (begin_ptr rhs) (size_m this)
                                   (size_m rhs - size_m this) (begin_ptr this) 0)
                         else (None, w2)) of
              (Some e, w3) \<Rightarrow> (Some e, this, w3)
            | (None, w3) \<Rightarrow> (None, this\<lparr>size_m := size_m rhs\<rparr>, w3)))
      else (None, this, w))"

text \<open>Move assignment; the result is (this, rhs, world) after the call.\<close>

definition vector_move_assign ::
  "bool \<Rightarrow> vector \<Rightarrow> vector \<Rightarrow> 'a world \<Rightarrow> vector \<times> vector \<times> 'a world" where
  "vector_move_assign same this rhs w =
     (if \<not> same then
        (if size_m rhs > Capacity this then
           (case vector_move_ctor rhs of
              (rhs_copy, rhs') \<Rightarrow>
                (case vector_Swap this rhs_copy of
                   (this', rhs_copy') \<Rightarrow> (this', rhs', vector_dtor rhs_copy' w)))
         else
           (case raw_memory_move_assign (data_m this) (data_m rhs) w of
              (d, rd, w1) \<Rightarrow> (\<lparr>data_m = d, size_m = size_m rhs\<rparr>, rhs\<lparr>data_m := rd\<rparr>, w1)))
      else (this, rhs, w))"

definition Reserve ::
  "'a traits \<Rightarrow> nat \<Rightarrow> vector \<Rightarrow> 'a world \<Rightarrow> error option \<times> vector \<times> 'a world" where
  "Reserve T new_capacity v w =
     (if new_capacity < Capacity v then (None, v, w)
      else
        (case raw_memory_ctor new_capacity w of
           (Inl e, w1) \<Rightarrow> (Some e, v, w1)
         | (Inr new_data, w1) \<Rightarrow>
             (case Uninitialized T (begin_ptr v) 0 (size_m v) (buffer_m new_data) 0 w1 of
                (Some e, w2) \<Rightarrow> (Some e, v, raw_memory_dtor new_data w2)
              | (None, w2) \<Rightarrow>
                  (case DestroyAndSwap v new_data w2 of
                     (v', new_data', w3) \<Rightarrow> (None, v', raw_memory_dtor new_data' w3)))))"

definition Resize ::
  "'a traits \<Rightarrow> nat \<Rightarrow> vector \<Rightarrow> 'a world \<Rightarrow> error option \<times> vector \<times> 'a world" where
  "Resize T new_size v w =
     (case (if new_size < size_m v
            then (v\<lparr>size_m := new_size\<rparr>,
                  destroy_n (begin_ptr v) new_size (size_m v - new_size) w)
            else (v, w)) of
        (v1, w1) \<Rightarrow>
          if new_size > size_m v1 then
            (case Reserve T new_size v1 w1 of
               (Some e, v2, w2) \<Rightarrow> (Some e, v2, w2)
             | (None, v2, w2) \<Rightarrow>
                 (case uninitialized_value_construct_n T (begin_ptr v2) (size_m v2)
                         (new_size - size_m v2) w2 of
                    (Some e, w3) \<Rightarrow> (Some e, v2, w3)
                  | (None, w3) \<Rightarrow> (None, v2\<lparr>size_m := new_size\<rparr>, w3)))
          else (None, v1, w1))"

text \<open>
  The argument pack of \<^verbatim>\<open>Emplace\<close>, as far as the container can tell the cases apart:
  a \<^verbatim>\<open>const T&\<close> to an object outside the heap, a \<^verbatim>\<open>T&&\<close> to such an object, or a
  \<^verbatim>\<open>const T&\<close> to a slot of the heap, which may be an element of the vector itself
  (\<^verbatim>\<open>v.EmplaceBack(v[0])\<close>). A reference is followed when the element is constructed
  from it, not before.
\<close>

datatype 'a arg = Const_ref 'a | Rvalue 'a | Slot_ref "nat option" nat

definition construct_from ::
  "'a arg \<Rightarrow> nat option \<Rightarrow> nat \<Rightarrow> 'a world \<Rightarrow> 'a step" where
  "construct_from a p i w =
     (case a of
        Const_ref x \<Rightarrow> copy_construct_value x p i w
      | Rvalue x \<Rightarrow> move_construct_value x p i w
      | Slot_ref sp si \<Rightarrow> copy_construct sp si p i w)"

text \<open>\<^verbatim>\<open>T elem(args...)\<close>: a local object; its value, or the exception.\<close>

definition construct_local :: "'a arg \<Rightarrow> 'a world \<Rightarrow> (error + 'a) \<times> 'a world" where
  "construct_local a w =
     (case a of
        Const_ref x \<Rightarrow>
          (case charge_copy w of
             None \<Rightarrow> (Inl ElementConstructionFailure, w)
           | Some w' \<Rightarrow> (Inr x, emit (CopyConstructed Local) w'))
      | Rvalue x \<Rightarrow> (Inr x, emit (MoveConstructed Local) w)
      | Slot_ref sp si \<Rightarrow>
          (case load w sp si of
             None \<Rightarrow> (Inl Fault, w)
           | Some x \<Rightarrow>
               (case charge_copy w of
                  None \<Rightarrow> (Inl ElementConstructionFailure, w)
                | Some w' \<Rightarrow> (Inr x, emit (CopyConstructed Local) w'))))"

text \<open>
  The position \<open>pos\<close> is given as the offset \<^verbatim>\<open>pos - begin()\<close>. A position past
  \<^verbatim>\<open>end()\<close> makes \<^verbatim>\<open>size_ - new_pos\<close> wrap around: a Fault.
\<close>

definition ReallocationEmplace ::
  "'a traits \<Rightarrow> nat \<Rightarrow> 'a arg \<Rightarrow> vector \<Rightarrow> 'a world
     \<Rightarrow> (error + nat option \<times> nat) \<times> vector \<times> 'a world" where
  "ReallocationEmplace T new_pos a v w =
     (case raw_memory_ctor (growth_capacity (size_m v)) w of
        (Inl e, w1) \<Rightarrow> (Inl e, v, w1)
      | (Inr new_data, w1) \<Rightarrow>
          (case and_then (construct_from a (buffer_m new_data) new_pos w1)
                  (\<lambda>w2. and_then
                     (Uninitialized T (begin_ptr v) 0 new_pos (buffer_m new_data) 0 w2)
                     (\<lambda>w3. if new_pos \<le> size_m v
                           then Uninitialized T (begin_ptr v) new_pos (size_m v - new_pos)
                                  (buffer_m new_data) (new_pos + 1) w3
                           else (Some Fault, w3))) of
             (Some e, w4) \<Rightarrow> (Inl e, v, raw_memory_dtor new_data w4)
           | (None, w4) \<Rightarrow>
               (case DestroyAndSwap v new_data w4 of
                  (v', new_data', w5) \<Rightarrow>
                    (Inr (buffer_m new_data, new_pos), v'\<lparr>size_m := size_m v' + 1\<rparr>,
                     raw_memory_dtor new_data' w5))))"

definition NoReallocationEmplace ::
  "'a traits \<Rightarrow> nat \<Rightarrow> 'a arg \<Rightarrow> vector \<Rightarrow> 'a world
     \<Rightarrow> (error + nat option \<times> nat) \<times> vector \<times> 'a world" where
  "NoReallocationEmplace T new_pos a v w =
     (if new_pos = size_m v then
        (case construct_from a (begin_ptr v) (size_m v) w of
           (Some e, w1) \<Rightarrow> (Inl e, v, w1)
         | (None, w1) \<Rightarrow> (Inr (begin_ptr v, new_pos), v\<lparr>size_m := size_m v + 1\<rparr>, w1))
      else
        (case construct_local a w of
           (Inl e, w1) \<Rightarrow> (Inl e, v, w1)
         | (Inr elem, w1) \<Rightarrow>
             (case (if size_m v = 0 \<or> size_m v < new_pos then (Some Fault, w1)
                    else and_then
                           (move_construct T (begin_ptr v) (size_m v - 1)
                              (begin_ptr v) (size_m v) w1)
                           (\<lambda>w2. and_then
                              (move_backward T (begin_ptr v) new_pos
                                 (size_m v - 1 - new_pos) (size_m v) w2)
                              (move_assign_value elem (begin_ptr v) new_pos))) of
                (Some e, w4) \<Rightarrow> (Inl e, v, emit (Destroyed Local) w4)
              | (None, w4) \<Rightarrow>
                  (Inr (begin_ptr v, new_pos), v\<lparr>size_m := size_m v + 1\<rparr>,
                   emit (Destroyed Local) w4))))"

definition Emplace ::
  "'a traits \<Rightarrow> nat \<Rightarrow> 'a arg \<Rightarrow> vector \<Rightarrow> 'a world
     \<Rightarrow> (error + nat option \<times> nat) \<times> vector \<times> 'a world" where
  "Emplace T pos a v w =
     (if size_m v = Capacity v then ReallocationEmplace T pos a v w
      else NoReallocationEmplace T pos a v w)"

definition EmplaceBack ::
  "'a traits \<Rightarrow> 'a arg \<Rightarrow> vector \<Rightarrow> 'a world
     \<Rightarrow> (error + nat option \<times> nat) \<times> vector \<times> 'a world" where
  "EmplaceBack T a v w = Emplace T (size_m v) a v w"

definition Insert_copy ::
  "'a traits \<Rightarrow> nat \<Rightarrow> 'a \<Rightarrow> vector \<Rightarrow> 'a world
     \<Rightarrow> (error + nat option \<times> nat) \<times> vector \<times> 'a world" where
  "Insert_copy T pos x v w = Emplace T pos (Const_ref x) v w"

definition Insert_move ::
  "'a traits \<Rightarrow> nat \<Rightarrow> 'a \<Rightarrow> vector \<Rightarrow> 'a world
     \<Rightarrow> (error + nat option \<times> nat) \<times> vector \<times> 'a world" where
  "Insert_move T pos x v w = Emplace T pos (Rvalue x) v w"

definition PushBack_copy ::
  "'a traits \<Rightarrow> 'a \<Rightarrow> vector \<Rightarrow> 'a world \<Rightarrow> error option \<times> vector \<times> 'a world" where
  "PushBack_copy T x v w =
     (case EmplaceBack T (Const_ref x) v w of
        (Inl e, v', w') \<Rightarrow> (Some e, v', w')
      | (Inr p, v', w') \<Rightarrow> (None, v', w'))"

definition PushBack_move ::
  "'a traits \<Rightarrow> 'a \<Rightarrow> vector \<Rightarrow> 'a world \<Rightarrow> error option \<times> vector \<times> 'a world" where
  "PushBack_move T x v w =
     (if size_m v = Capacity v then
        (case raw_memory_ctor (growth_capacity (size_m v)) w of
           (Inl e, w1) \<Rightarrow> (Some e, v, w1)
         | (Inr new_data, w1) \<Rightarrow>
             (case and_then (move_construct_value x (buffer_m new_data) (size_m v) w1)
                     (Uninitialized T (begin_ptr v) 0 (size_m v) (buffer_m new_data) 0) of
                (Some e, w3) \<Rightarrow> (Some e, v, raw_memory_dtor new_data w3)
              | (None, w3) \<Rightarrow>
                  (case DestroyAndSwap v new_data w3 of
                     (v', new_data', w4) \<Rightarrow>
                       (None, v'\<lparr>size_m := size_m v' + 1\<rparr>, raw_memory_dtor new_data' w4))))
      else
        (case move_construct_value x (begin_ptr v) (size_m v) w of
           (Some e, w1) \<Rightarrow> (Some e, v, w1)
         | (None, w1) \<Rightarrow> (None, v\<lparr>size_m := size_m v + 1\<rparr>, w1)))"

text \<open>The live prefix of a vector: the slots \<open>[0, size)\<close> of its buffer.\<close>

definition contents :: "'a world \<Rightarrow> vector \<Rightarrow> 'a slot list" where
  "contents w v = take (size_m v) (slots w (begin_ptr v))"

section \<open>Observations of a run\<close>

text \<open>The three components of what an operation on a vector returns.\<close>

definition outcome :: "'r \<times> vector \<times> 'a world \<Rightarrow> 'r" where
  "outcome r = fst r"

definition result_vector :: "'r \<times> vector \<times> 'a world \<Rightarrow> vector" where
  "result_vector r = fst (snd r)"

definition result_world :: "'r \<times> vector \<times> 'a world \<Rightarrow> 'a world" where
  "result_world r = snd (snd r)"

fun is_live :: "'a slot \<Rightarrow> bool" where
  "is_live Raw = False"
| "is_live (Live x) = True"

text \<open>
  The invariant of a vector in a world: the size is within the capacity, the buffer has
  as many slots as the capacity says and is null exactly when the capacity is 0, the
  slots \<open>[0, size)\<close> hold live elements, the buffer was handed out by the allocator and
  the next address is free. A buffer has fewer than \<open>2 ^ 63\<close> slots: no object is larger
  than \<^verbatim>\<open>PTRDIFF_MAX\<close> bytes.
\<close>

definition well_formed :: "'a world \<Rightarrow> vector \<Rightarrow> bool" where
  "well_formed w v =
     (size_m v \<le> Capacity v \<and> Capacity v < 2 ^ 63
      \<and> length (slots w (begin_ptr v)) = Capacity v
      \<and> ((begin_ptr v = None) = (Capacity v = 0))
      \<and> list_all is_live (contents w v)
      \<and> (case begin_ptr v of None \<Rightarrow> True | Some a \<Rightarrow> a < next_addr w)
      \<and> heap w (next_addr w) = [])"

text \<open>
  An operation left the vector as it was: the object is the same (buffer, capacity and
  size), every buffer of the heap is the same, and so are the elements.
\<close>

definition unchanged :: "'a world \<Rightarrow> vector \<Rightarrow> 'r \<times> vector \<times> 'a world \<Rightarrow> bool" where
  "unchanged w v r =
     (result_vector r = v \<and> heap (result_world r) = heap w
      \<and> contents (result_world r) (result_vector r) = contents w v)"

text \<open>The value an argument denotes in a world, when it denotes one.\<close>

definition arg_value :: "'a world \<Rightarrow> 'a arg \<Rightarrow> 'a option" where
  "arg_value w a =
     (case a of Const_ref x \<Rightarrow> Some x | Rvalue x \<Rightarrow> Some x | Slot_ref sp si \<Rightarrow> load w sp si)"

text \<open>The copy constructor calls an argument asks for: none for an rvalue.\<close>

definition arg_copies :: "'a arg \<Rightarrow> nat" where
  "arg_copies a = (case a of Rvalue x \<Rightarrow> 0 | _ \<Rightarrow> 1)"

fun is_copy_construction :: "event \<Rightarrow> bool" where
  "is_copy_construction (CopyConstructed p) = True"
| "is_copy_construction e = False"

definition copy_constructions :: "event list \<Rightarrow> nat" where
  "copy_constructions es = length (filter is_copy_construction es)"

text \<open>The constructor call by which relocation builds an element at a place.\<close>

definition relocation_event :: "'a traits \<Rightarrow> place \<Rightarrow> event" where
  "relocation_event T p =
     (if nothrow_move_constructible T \<or> \<not> copy_constructible T
      then MoveConstructed p else CopyConstructed p)"

section \<open>Example element types and worlds\<close>

text \<open>An element type like \<^verbatim>\<open>int\<close>: moves cannot throw and leave the value behind.\<close>

definition plain :: "nat traits" where
  "plain = \<lparr>nothrow_move_constructible = True, copy_constructible = True,
             nothrow_move_assignable = True, moved_from = (\<lambda>x. x), value_init = 0\<rparr>"

text \<open>An element type whose move constructor may throw, so that relocation copies.\<close>

definition copying :: "nat traits" where
  "copying = \<lparr>nothrow_move_constructible = False, copy_constructible = True,
               nothrow_move_assignable = False, moved_from = (\<lambda>x. 0), value_init = 0\<rparr>"

text \<open>
  Two vectors: \<open>a\<close> is \<open>[9]\<close> with capacity 3 at address 1, \<open>b\<close> is \<open>[1, 2, 3]\<close>
  with capacity 3 at address 2.
\<close>

definition world_ab :: "nat world" where
  "world_ab = \<lparr>heap = (\<lambda>_. [])(1 := [Live 9, Raw, Raw], 2 := [Live 1, Live 2, Live 3]),
                next_addr = 3, trace = [], alloc_budget = None, copy_budget = None\<rparr>"

definition vec_a :: vector where
  "vec_a = \<lparr>data_m = \<lparr>buffer_m = Some 1, capacity_m = 3\<rparr>, size_m = 1\<rparr>"

definition vec_b :: vector where
  "vec_b = \<lparr>data_m = \<lparr>buffer_m = Some 2, capacity_m = 3\<rparr>, size_m = 3\<rparr>"

text \<open>
  Two full vectors: \<open>c\<close> is \<open>[10, 20]\<close> at address 1, \<open>d\<close> is \<open>[7]\<close> at address 2.
\<close>

definition world_cd :: "nat world" where
  "world_cd = \<lparr>heap = (\<lambda>_. [])(1 := [Live 10, Live 20], 2 := [Live 7]),
                next_addr = 3, trace = [], alloc_budget = None, copy_budget = None\<rparr>"

definition vec_c :: vector where
  "vec_c = \<lparr>data_m = \<lparr>buffer_m = Some 1, capacity_m = 2\<rparr>, size_m = 2\<rparr>"

definition vec_d :: vector where
  "vec_d = \<lparr>data_m = \<lparr>buffer_m = Some 2, capacity_m = 1\<rparr>, size_m = 1\<rparr>"

text \<open>A vector with room: \<open>e\<close> is \<open>[1, 2, 3]\<close> with capacity 5 at address 1.\<close>

definition world_e :: "nat world" where
  "world_e = \<lparr>heap = (\<lambda>_. [])(1 := [Live 1, Live 2, Live 3, Raw, Raw]),
               next_addr = 2, trace = [], alloc_budget = None, copy_budget = None\<rparr>"

definition vec_e :: vector where
  "vec_e = \<lparr>data_m = \<lparr>buffer_m = Some 1, capacity_m = 5\<rparr>, size_m = 3\<rparr>"

section \<open>Evaluation on numerals\<close>

lemmas model_defs =
  slots_def store_def load_def emit_def and_then_def charge_alloc_def charge_copy_def
  copy_construct_value_def move_construct_value_def copy_construct_def move_construct_def
  value_construct_def copy_assign_slot_def move_assign_slot_def move_assign_value_def
  destroy_at_def uninitialized_copy_n_def Allocate_def Deallocate_def raw_memory_ctor_def
  raw_memory_dtor_def raw_memory_Swap_def raw_memory_move_ctor_def raw_memory_move_assign_def
  raw_memory_default_def vector_default_def Capacity_def begin_ptr_def growth_capacity_def
  Destroy_def vector_dtor_def Uninitialized_def DestroyAndSwap_def vector_Swap_def
  vector_copy_ctor_def vector_move_ctor_def vector_copy_assign_def vector_move_assign_def
  Reserve_def Resize_def construct_from_def construct_local_def ReallocationEmplace_def
  NoReallocationEmplace_def Emplace_def EmplaceBack_def Insert_copy_def Insert_move_def
  PushBack_copy_def PushBack_move_def contents_def outcome_def result_vector_def
  result_world_def well_formed_def arg_value_def arg_copies_def copy_constructions_def
  relocation_event_def

lemmas example_defs =
  plain_def copying_def world_ab_def vec_a_def vec_b_def world_cd_def vec_c_def vec_d_def
  world_e_def vec_e_def

lemma destroy_n_numeral:
  "destroy_n p i (numeral k) w = destroy_n p (Suc i) (pred_numeral k) (destroy_at p i w)"
  by (simp add: numeral_eq_Suc)

lemma DestroyN_numeral:
  "DestroyN p i (numeral k) w = DestroyN p i (pred_numeral k) (Destroy p i w)"
  by (simp add: numeral_eq_Suc)

lemma uninitialized_move_n_numeral:
  "uninitialized_move_n T sp si (numeral k) dp di w =
     and_then (move_construct T sp si dp di w)
       (uninitialized_move_n T sp (Suc si) (pred_numeral k) dp (Suc di))"
  by (simp add: numeral_eq_Suc)

lemma copy_loop_numeral:
  "copy_loop sp si (numeral k) dp dfirst di w =
     (case copy_construct sp si dp di w of
        (None, w') \<Rightarrow> copy_loop sp (Suc si) (pred_numeral k) dp dfirst (Suc di) w'
      | (Some e, w') \<Rightarrow> (Some e, destroy_n dp dfirst (di - dfirst) w'))"
  by (simp add: numeral_eq_Suc)

lemma std_copy_numeral:
  "std_copy sp si (numeral k) dp di w =
     and_then (copy_assign_slot sp si dp di w)
       (std_copy sp (Suc si) (pred_numeral k) dp (Suc di))"
  by (simp add: numeral_eq_Suc)

lemma move_backward_numeral:
  "move_backward T p first (numeral k) d_last w =
     (if d_last = 0 then (Some Fault, w)
      else and_then (move_assign_slot T p (first + pred_numeral k) p (d_last - 1) w)
             (move_backward T p first (pred_numeral k) (d_last - 1)))"
  by (simp add: numeral_eq_Suc)

lemma uninitialized_value_construct_n_numeral:
  "uninitialized_value_construct_n T p i (numeral k) w =
     and_then (value_construct T p i w)
       (uninitialized_value_construct_n T p (Suc i) (pred_numeral k))"
  by (simp add: numeral_eq_Suc)

lemma list_update_numeral: "(x # xs)[numeral k := y] = x # xs[pred_numeral k := y]"
  by (simp add: numeral_eq_Suc)

lemma replicate_numeral_Cons: "replicate (numeral k) x = x # replicate (pred_numeral k) x"
  by (simp add: numeral_eq_Suc)

lemmas numeral_unfolds =
  destroy_n_numeral DestroyN_numeral uninitialized_move_n_numeral copy_loop_numeral
  std_copy_numeral move_backward_numeral uninitialized_value_construct_n_numeral
  list_update_numeral replicate_numeral_Cons

section \<open>Facts about slots and the standard algorithms\<close>


lemma slots_store [simp]:
  "slots (store p i s w) q = (if p = q then (slots w q)[i := s] else slots w q)"
  by (cases p; cases q) (auto simp: slots_def store_def)

lemma slots_emit [simp]: "slots (emit e w) q = slots w q"
  by (simp add: slots_def emit_def split: option.splits)

lemma fields_store [simp]:
  "next_addr (store p i s w) = next_addr w"
  "trace (store p i s w) = trace w"
  "alloc_budget (store p i s w) = alloc_budget w"
  "copy_budget (store p i s w) = copy_budget w"
  by (simp_all add: store_def split: option.splits)

lemma fields_emit [simp]:
  "next_addr (emit e w) = next_addr w"
  "trace (emit e w) = trace w @ [e]"
  "alloc_budget (emit e w) = alloc_budget w"
  "copy_budget (emit e w) = copy_budget w"
  by (simp_all add: emit_def)

lemma load_eq_Some: "load w p i = Some x \<longleftrightarrow> i < length (slots w p) \<and> slots w p ! i = Live x"
  by (auto simp: load_def split: slot.splits)

lemma is_live_conv: "is_live s \<longleftrightarrow> (\<exists>x. s = Live x)"
  by (cases s) auto

lemma take_Suc_update: "i < length xs \<Longrightarrow> take (Suc i) (xs[i := y]) = take i xs @ [y]"
  by (simp add: take_Suc_conv_app_nth)

lemma uninitialized_move_n_spec:
  assumes "sp \<noteq> dp" "si + n \<le> length (slots w sp)" "di + n \<le> length (slots w dp)"
      "list_all is_live (take n (drop si (slots w sp)))"
  shows "\<exists>w'. uninitialized_move_n T sp si n dp di w = (None, w')
      \<and> slots w' dp = take di (slots w dp) @ take n (drop si (slots w sp)) @ drop (di + n) (slots w dp)
      \<and> length (slots w' sp) = length (slots w sp)
      \<and> drop (si + n) (slots w' sp) = drop (si + n) (slots w sp)
      \<and> (\<forall>q. q \<noteq> sp \<longrightarrow> q \<noteq> dp \<longrightarrow> slots w' q = slots w q)
      \<and> next_addr w' = next_addr w \<and> alloc_budget w' = alloc_budget w \<and> copy_budget w' = copy_budget w"
  using assms
proof (induction n arbitrary: si di w)
  case 0
  then show ?case by simp
next
  case (Suc n)
  let ?S = "slots w sp" and ?D = "slots w dp"
  from Suc.prems have si: "si < length ?S" and di: "di < length ?D" by simp_all
  from si have dr: "drop si ?S = ?S ! si # drop (Suc si) ?S"
    by (simp add: Cons_nth_drop_Suc)
  from Suc.prems(4) dr have "is_live (?S ! si)"
    and rest: "list_all is_live (take n (drop (Suc si) ?S))"
    by simp_all
  then obtain x where x: "?S ! si = Live x"
    by (auto simp: is_live_conv)
  define w1 where "w1 = emit (MoveConstructed (At dp di))
     (store sp si (Live (moved_from T x)) (store dp di (Live x) w))"
  have step: "move_construct T sp si dp di w = (None, w1)"
    using si di x by (simp add: move_construct_def load_def w1_def)
  have S1: "slots w1 sp = ?S[si := Live (moved_from T x)]"
    and D1: "slots w1 dp = ?D[di := Live x]"
    using Suc.prems(1) by (auto simp: w1_def)
  have "\<exists>w'. uninitialized_move_n T sp (Suc si) n dp (Suc di) w1 = (None, w')
      \<and> slots w' dp = take (Suc di) (slots w1 dp) @ take n (drop (Suc si) (slots w1 sp)) @ drop (Suc di + n) (slots w1 dp)
      \<and> length (slots w' sp) = length (slots w1 sp)
      \<and> drop (Suc si + n) (slots w' sp) = drop (Suc si + n) (slots w1 sp)
      \<and> (\<forall>q. q \<noteq> sp \<longrightarrow> q \<noteq> dp \<longrightarrow> slots w' q = slots w1 q)
      \<and> next_addr w' = next_addr w1 \<and> alloc_budget w' = alloc_budget w1 \<and> copy_budget w' = copy_budget w1"
    using Suc.prems rest by (intro Suc.IH) (simp_all add: S1 D1)
  then obtain w' where w': "uninitialized_move_n T sp (Suc si) n dp (Suc di) w1 = (None, w')"
      "slots w' dp = take (Suc di) (slots w1 dp) @ take n (drop (Suc si) (slots w1 sp)) @ drop (Suc di + n) (slots w1 dp)"
      "length (slots w' sp) = length (slots w1 sp)"
      "drop (Suc si + n) (slots w' sp) = drop (Suc si + n) (slots w1 sp)"
      "\<forall>q. q \<noteq> sp \<longrightarrow> q \<noteq> dp \<longrightarrow> slots w' q = slots w1 q"
      "next_addr w' = next_addr w1" "alloc_budget w' = alloc_budget w1" "copy_budget w' = copy_budget w1"
    by blast
  have run: "uninitialized_move_n T sp si (Suc n) dp di w = (None, w')"
    by (simp add: step and_then_def w'(1))
  have dst: "slots w' dp = take di ?D @ take (Suc n) (drop si ?S) @ drop (di + Suc n) ?D"
    using di by (simp add: w'(2) S1 D1 dr x take_Suc_update)
  have others: "\<forall>q. q \<noteq> sp \<longrightarrow> q \<noteq> dp \<longrightarrow> slots w' q = slots w q"
    using w'(5) by (simp add: w1_def)
  have src: "length (slots w' sp) = length ?S"
      "drop (si + Suc n) (slots w' sp) = drop (si + Suc n) ?S"
    using w'(3,4) by (simp_all add: S1)
  have "next_addr w' = next_addr w" "alloc_budget w' = alloc_budget w"
      "copy_budget w' = copy_budget w"
    using w'(6,7,8) by (simp_all add: w1_def)
  with run dst others src show ?case
    by simp
qed

lemma charge_copy_fields:
  assumes "charge_copy w = Some wc"
  shows "slots wc q = slots w q" "next_addr wc = next_addr w" "trace wc = trace w"
    "alloc_budget wc = alloc_budget w" "heap wc = heap w"
  using assms by (auto simp: charge_copy_def slots_def split: option.splits if_splits)

lemma slots_destroy_at [simp]:
  "slots (destroy_at p i w) q = (if p = q then (slots w q)[i := Raw] else slots w q)"
  by (simp add: destroy_at_def)

lemma fields_destroy_at [simp]:
  "next_addr (destroy_at p i w) = next_addr w"
  "alloc_budget (destroy_at p i w) = alloc_budget w"
  "copy_budget (destroy_at p i w) = copy_budget w"
  "trace (destroy_at p i w) = trace w @ [Destroyed (At p i)]"
  by (simp_all add: destroy_at_def)

lemma slots_destroy_n_other: "q \<noteq> p \<Longrightarrow> slots (destroy_n p i n w) q = slots w q"
  by (induction n arbitrary: i w) auto

lemma fields_destroy_n [simp]:
  "next_addr (destroy_n p i n w) = next_addr w"
  "alloc_budget (destroy_n p i n w) = alloc_budget w"
  "copy_budget (destroy_n p i n w) = copy_budget w"
  by (induction n arbitrary: i w) auto

lemma length_slots_destroy_n [simp]: "length (slots (destroy_n p i n w) q) = length (slots w q)"
  by (induction n arbitrary: i w) auto

lemma copy_construct_cases:
  obtains (fault) "copy_construct sp si dp di w = (Some Fault, w)"
  | (throw) "copy_construct sp si dp di w = (Some ElementConstructionFailure, w)"
  | (ok) x wc where "load w sp si = Some x" "di < length (slots w dp)" "charge_copy w = Some wc"
      "copy_construct sp si dp di w =
         (None, emit (CopyConstructed (At dp di)) (store dp di (Live x) wc))"
proof (cases "load w sp si")
  case None
  then show ?thesis using fault by (simp add: copy_construct_def)
next
  case (Some x)
  show ?thesis
  proof (cases "di < length (slots w dp)")
    case False
    with Some show ?thesis using fault
      by (simp add: copy_construct_def copy_construct_value_def)
  next
    case True
    show ?thesis
    proof (cases "charge_copy w")
      case None
      with Some True show ?thesis using throw
        by (simp add: copy_construct_def copy_construct_value_def)
    next
      case (Some wc)
      with \<open>load w sp si = Some x\<close> True show ?thesis using ok
        by (simp add: copy_construct_def copy_construct_value_def)
    qed
  qed
qed

lemma copy_loop_frame:
  "q \<noteq> dp \<Longrightarrow> slots (snd (copy_loop sp si n dp df di w)) q = slots w q"
proof (induction n arbitrary: si di w)
  case 0
  then show ?case by simp
next
  case (Suc n)
  show ?case
  proof (cases rule: copy_construct_cases [of sp si dp di w])
    case fault
    with Suc.prems show ?thesis by (simp add: slots_destroy_n_other)
  next
    case throw
    with Suc.prems show ?thesis by (simp add: slots_destroy_n_other)
  next
    case (ok x wc)
    with Suc.prems Suc.IH [OF Suc.prems] show ?thesis
      by (simp add: charge_copy_fields)
  qed
qed

lemma copy_loop_next_addr:
  "next_addr (snd (copy_loop sp si n dp df di w)) = next_addr w"
proof (induction n arbitrary: si di w)
  case 0
  then show ?case by simp
next
  case (Suc n)
  show ?case
  proof (cases rule: copy_construct_cases [of sp si dp di w])
    case (ok x wc)
    with Suc.IH show ?thesis
      by (simp add: charge_copy_fields)
  qed simp_all
qed

lemma copy_loop_spec:
  assumes "sp \<noteq> dp" "si + n \<le> length (slots w sp)" "di + n \<le> length (slots w dp)"
      "list_all is_live (take n (drop si (slots w sp)))"
      "fst (copy_loop sp si n dp df di w) \<noteq> Some ElementConstructionFailure"
  shows "\<exists>w'. copy_loop sp si n dp df di w = (None, w')
      \<and> slots w' dp = take di (slots w dp) @ take n (drop si (slots w sp)) @ drop (di + n) (slots w dp)
      \<and> alloc_budget w' = alloc_budget w"
  using assms
proof (induction n arbitrary: si di w)
  case 0
  then show ?case by simp
next
  case (Suc n)
  let ?S = "slots w sp" and ?D = "slots w dp"
  from Suc.prems have si: "si < length ?S" and di: "di < length ?D" by simp_all
  from si have dr: "drop si ?S = ?S ! si # drop (Suc si) ?S"
    by (simp add: Cons_nth_drop_Suc)
  from Suc.prems(4) dr have "is_live (?S ! si)"
    and rest: "list_all is_live (take n (drop (Suc si) ?S))"
    by simp_all
  then obtain x where x: "?S ! si = Live x"
    by (auto simp: is_live_conv)
  show ?case
  proof (cases rule: copy_construct_cases [of sp si dp di w])
    case fault
    with si x show ?thesis
      by (simp add: copy_construct_def copy_construct_value_def load_def di split: option.splits)
  next
    case throw
    with Suc.prems(5) show ?thesis by simp
  next
    case (ok y wc)
    define w1 where "w1 = emit (CopyConstructed (At dp di)) (store dp di (Live y) wc)"
    from ok(1) x have y: "y = x" by (simp add: load_eq_Some)
    have S1: "slots w1 sp = ?S" and D1: "slots w1 dp = ?D[di := Live x]"
      using Suc.prems(1) ok(3) by (auto simp: w1_def charge_copy_fields y)
    have step: "copy_construct sp si dp di w = (None, w1)"
      using ok(4) by (simp add: w1_def)
    have "\<exists>w'. copy_loop sp (Suc si) n dp df (Suc di) w1 = (None, w')
      \<and> slots w' dp = take (Suc di) (slots w1 dp) @ take n (drop (Suc si) (slots w1 sp)) @ drop (Suc di + n) (slots w1 dp)
      \<and> alloc_budget w' = alloc_budget w1"
      using Suc.prems rest step by (intro Suc.IH) (simp_all add: S1 D1)
    then obtain w' where w': "copy_loop sp (Suc si) n dp df (Suc di) w1 = (None, w')"
      "slots w' dp = take (Suc di) (slots w1 dp) @ take n (drop (Suc si) (slots w1 sp)) @ drop (Suc di + n) (slots w1 dp)"
      "alloc_budget w' = alloc_budget w1"
      by blast
    have run: "copy_loop sp si (Suc n) dp df di w = (None, w')"
      by (simp add: step w'(1))
    have dst: "slots w' dp = take di ?D @ take (Suc n) (drop si ?S) @ drop (di + Suc n) ?D"
      using di by (simp add: w'(2) S1 D1 dr x take_Suc_update)
    have "alloc_budget w' = alloc_budget w"
      using w'(3) ok(3) by (simp add: w1_def charge_copy_fields)
    with run dst show ?thesis by simp
  qed
qed

lemma uninitialized_move_n_error:
  "fst (uninitialized_move_n T sp si n dp di w) = None
   \<or> fst (uninitialized_move_n T sp si n dp di w) = Some Fault"
  by (induction n arbitrary: si di w)
     (auto simp: and_then_def move_construct_def split: option.splits prod.splits)

section \<open>Moving storage and vectors\<close>

text \<open>
  C10. After move-constructing a vector \<open>b\<close> from a vector \<open>a\<close>, the source is exactly in
  the default-constructed state: size 0, capacity 0 and a null buffer, so that
  \<^verbatim>\<open>begin()\<close> and \<^verbatim>\<open>end()\<close> are both null; \<open>b\<close> has the storage and the size
  that \<open>a\<close> had.
\<close>

theorem move_ctor_source_default:
  "snd (vector_move_ctor a) = vector_default
   \<and> size_m (snd (vector_move_ctor a)) = 0
   \<and> Capacity (snd (vector_move_ctor a)) = 0
   \<and> begin_ptr (snd (vector_move_ctor a)) = None
   \<and> fst (vector_move_ctor a) = a"
  by (simp add: vector_move_ctor_def raw_memory_move_ctor_def raw_memory_Swap_def
      raw_memory_default_def vector_default_def Capacity_def begin_ptr_def)

text \<open>
  C4, as stated, fails: move-assigning the storage of \<open>d\<close> (address 2, capacity 1) to the
  storage of \<open>c\<close> (address 1, capacity 2) leaves the source with the target's previous
  buffer, not in the default state, and the previous buffer is neither released nor
  removed from the heap by the assignment.
\<close>

theorem raw_memory_move_assign_not_default:
  "\<not> (fst (snd (raw_memory_move_assign (data_m vec_c) (data_m vec_d) world_cd))
        = raw_memory_default
      \<or> Released 1 \<in> set (trace (snd (snd
            (raw_memory_move_assign (data_m vec_c) (data_m vec_d) world_cd))))
      \<or> heap (snd (snd (raw_memory_move_assign (data_m vec_c) (data_m vec_d) world_cd))) 1
          = [])"
  by (simp add: raw_memory_move_assign_def raw_memory_Swap_def raw_memory_default_def
      example_defs)

text \<open>
  C4, amended. Move assignment of RawMemory exchanges buffer and capacity: the target
  receives the source's buffer and capacity, the source receives the target's previous
  buffer and capacity (so it is in the default state only when the target was), and the
  assignment changes nothing in the world: no buffer is released by it. The target's
  previous buffer is released when the source is destroyed afterwards.
\<close>

theorem raw_memory_move_assign_swaps:
  "raw_memory_move_assign this rhs w = (rhs, this, w)
   \<and> raw_memory_dtor (fst (snd (raw_memory_move_assign this rhs w))) w
       = Deallocate (buffer_m this) w"
  by (simp add: raw_memory_move_assign_def raw_memory_Swap_def raw_memory_dtor_def)

text \<open>
  C3, as stated, fails: with \<open>c = [10, 20]\<close> (capacity 2) and \<open>d = [7]\<close>, the move
  assignment \<open>c = move(d)\<close> destroys no element of \<open>c\<close> and does not free the previous
  buffer of \<open>c\<close>: nothing is recorded in the trace, and the buffer at address 1 still holds
  both elements.
\<close>

theorem vector_move_assign_releases_nothing:
  "\<not> (Destroyed (At (Some 1) 0) \<in> set (trace (snd (snd
           (vector_move_assign False vec_c vec_d world_cd))))
      \<or> Released 1 \<in> set (trace (snd (snd
           (vector_move_assign False vec_c vec_d world_cd))))
      \<or> heap (snd (snd (vector_move_assign False vec_c vec_d world_cd))) 1
          \<noteq> [Live 10, Live 20])"
  by (simp add: vector_move_assign_def raw_memory_move_assign_def raw_memory_Swap_def
      Capacity_def example_defs)

text \<open>
  C3, amended. For distinct vectors \<open>a\<close> and \<open>rhs\<close> with \<open>rhs.size \<le> a.capacity\<close>, the move
  assignment exchanges the two storages: \<open>a\<close> receives the buffer and capacity of \<open>rhs\<close>
  and its size, so that \<open>a\<close> holds the contents \<open>rhs\<close> had; the previous buffer of \<open>a\<close>
  is handed to \<open>rhs\<close> and is not freed by the operation, which changes nothing in the
  world and has no failure outcome; that buffer is released when the storage of \<open>rhs\<close>
  is destroyed.
\<close>

theorem vector_move_assign_in_place:
  "size_m rhs \<le> Capacity this \<Longrightarrow>
     fst (vector_move_assign False this rhs w) = \<lparr>data_m = data_m rhs, size_m = size_m rhs\<rparr>
     \<and> data_m (fst (snd (vector_move_assign False this rhs w))) = data_m this
     \<and> snd (snd (vector_move_assign False this rhs w)) = w
     \<and> contents w (fst (vector_move_assign False this rhs w)) = contents w rhs
     \<and> raw_memory_dtor (data_m (fst (snd (vector_move_assign False this rhs w)))) w
         = Deallocate (begin_ptr this) w"
  by (simp add: vector_move_assign_def raw_memory_move_assign_def raw_memory_Swap_def
      Capacity_def contents_def begin_ptr_def raw_memory_dtor_def)

theorem vector_move_assign_in_place_witness:
  "size_m vec_d \<le> Capacity vec_c
   \<and> fst (vector_move_assign False vec_c vec_d world_cd)
       = \<lparr>data_m = \<lparr>buffer_m = Some 2, capacity_m = 1\<rparr>, size_m = 1\<rparr>
   \<and> data_m (fst (snd (vector_move_assign False vec_c vec_d world_cd)))
       = \<lparr>buffer_m = Some 1, capacity_m = 2\<rparr>
   \<and> snd (snd (vector_move_assign False vec_c vec_d world_cd)) = world_cd
   \<and> contents world_cd (fst (vector_move_assign False vec_c vec_d world_cd)) = [Live 7]"
  using vector_move_assign_in_place [of vec_d vec_c world_cd]
  by (simp add: Capacity_def contents_def begin_ptr_def slots_def example_defs)

section \<open>Destruction\<close>

lemma trace_DestroyN:
  "trace (DestroyN bp bi n w) = trace w @ replicate n (Destroyed (At bp bi))"
  by (induction n arbitrary: w)
     (simp_all add: Destroy_def destroy_at_def emit_def store_def replicate_app_Cons_same
       split: option.splits)

text \<open>
  C1 (destruction destroys the elements in slots \<open>[0, n)\<close> in order, each once, and then
  releases the storage) at the vector \<open>c = [10, 20]\<close>: the destructor of the element in
  slot 0 runs twice, the element in slot 1 is never destroyed and is still live when its
  buffer is released.
\<close>

theorem vector_dtor_destroys_slot_0_only:
  "trace (vector_dtor vec_c world_cd)
     = [Destroyed (At (Some 1) 0), Destroyed (At (Some 1) 0), Released 1]
   \<and> heap (DestroyN (begin_ptr vec_c) 0 (size_m vec_c) world_cd) 1 = [Raw, Live 20]"
  by (simp add: model_defs numeral_unfolds example_defs)

section \<open>Copy assignment\<close>

text \<open>
  C2 (for \<open>a.size \<le> rhs.size \<le> a.capacity\<close>, copy assignment leaves \<open>a\<close> equal to
  \<open>rhs\<close>) at \<open>a = [9]\<close> with capacity 3 and \<open>rhs = [1, 2, 3]\<close>: the elements
  \<open>rhs[1 .. 3)\<close> are copy-constructed into the slots \<open>[0, 2)\<close> of \<open>a\<close>, over the
  element just assigned, and slot 2 stays raw, while the size becomes 3.
\<close>

theorem vector_copy_assign_overwrites_front:
  "fst (vector_copy_assign False vec_a vec_b world_ab) = None
   \<and> size_m (fst (snd (vector_copy_assign False vec_a vec_b world_ab))) = 3
   \<and> heap (snd (snd (vector_copy_assign False vec_a vec_b world_ab))) 1
       = [Live 2, Live 3, Raw]
   \<and> contents world_ab vec_b = [Live 1, Live 2, Live 3]
   \<and> trace (snd (snd (vector_copy_assign False vec_a vec_b world_ab)))
       = [CopyAssigned (At (Some 1) 0), CopyConstructed (At (Some 1) 0),
          CopyConstructed (At (Some 1) 1)]"
  by (simp add: model_defs numeral_unfolds example_defs)

section \<open>The growth policy\<close>

lemma growth_capacity_small:
  "n < 2 ^ 63 \<Longrightarrow> growth_capacity n = (if n = 0 then 1 else 2 * n)"
  by (simp add: growth_capacity_def)

lemma Capacity_ReallocationEmplace:
  "Capacity (result_vector (ReallocationEmplace T pos a v w)) =
     (case outcome (ReallocationEmplace T pos a v w) of
        Inl e \<Rightarrow> Capacity v
      | Inr p \<Rightarrow> growth_capacity (size_m v))"
  by (simp add: ReallocationEmplace_def raw_memory_ctor_def Allocate_def DestroyAndSwap_def
      raw_memory_Swap_def Capacity_def outcome_def result_vector_def
      split: prod.splits sum.splits option.splits)

lemma Capacity_NoReallocationEmplace:
  "Capacity (result_vector (NoReallocationEmplace T pos a v w)) = Capacity v"
  by (simp add: NoReallocationEmplace_def Capacity_def result_vector_def
      split: prod.splits sum.splits option.splits)

lemma Capacity_Emplace:
  "Capacity (result_vector (Emplace T pos a v w)) =
     (if size_m v = Capacity v
      then (case outcome (Emplace T pos a v w) of
              Inl e \<Rightarrow> Capacity v
            | Inr p \<Rightarrow> growth_capacity (size_m v))
      else Capacity v)"
  by (simp add: Emplace_def Capacity_ReallocationEmplace Capacity_NoReallocationEmplace)

lemma Capacity_PushBack_move:
  "Capacity (result_vector (PushBack_move T x v w)) =
     (if size_m v = Capacity v
      then (case outcome (PushBack_move T x v w) of
              Some e \<Rightarrow> Capacity v
            | None \<Rightarrow> growth_capacity (size_m v))
      else Capacity v)"
  by (simp add: PushBack_move_def raw_memory_ctor_def Allocate_def DestroyAndSwap_def
      raw_memory_Swap_def Capacity_def outcome_def result_vector_def
      split: prod.splits sum.splits option.splits)

lemma Capacity_PushBack_copy:
  "Capacity (result_vector (PushBack_copy T x v w)) =
     (if size_m v = Capacity v
      then (case outcome (PushBack_copy T x v w) of
              Some e \<Rightarrow> Capacity v
            | None \<Rightarrow> growth_capacity (size_m v))
      else Capacity v)"
proof -
  obtain r v' w' where E: "Emplace T (size_m v) (Const_ref x) v w = (r, v', w')"
    by (cases "Emplace T (size_m v) (Const_ref x) v w") auto
  have "Capacity v' =
      (if size_m v = Capacity v
       then (case r of Inl e \<Rightarrow> Capacity v | Inr p \<Rightarrow> growth_capacity (size_m v))
       else Capacity v)"
    using Capacity_Emplace [of T "size_m v" "Const_ref x" v w]
    by (simp only: E outcome_def result_vector_def fst_conv snd_conv)
  moreover have "PushBack_copy T x v w =
      (case r of Inl e \<Rightarrow> (Some e, v', w') | Inr p \<Rightarrow> (None, v', w'))"
    by (simp add: PushBack_copy_def EmplaceBack_def E split: sum.splits)
  ultimately show ?thesis
    by (cases r) (simp_all add: outcome_def result_vector_def)
qed

text \<open>
  C9. An append or positional insert at \<open>size = capacity\<close> that succeeds leaves the capacity
  at 1 when the size was 0 and at twice the size (which is twice the capacity) otherwise;
  one that fails, or one below capacity, leaves the capacity as it was. So after any single
  append or insert the capacity is the previous one, 1, or twice the previous one.
\<close>

theorem growth_policy:
  assumes "Capacity v < 2 ^ 63"
  shows "(size_m v = Capacity v \<longrightarrow>
           (case outcome (Emplace T pos a v w) of
              Inr p \<Rightarrow> Capacity (result_vector (Emplace T pos a v w))
                        = (if size_m v = 0 then 1 else 2 * size_m v)
            | Inl e \<Rightarrow> Capacity (result_vector (Emplace T pos a v w)) = Capacity v)
         \<and> (case outcome (PushBack_move T x v w) of
              None \<Rightarrow> Capacity (result_vector (PushBack_move T x v w))
                        = (if size_m v = 0 then 1 else 2 * size_m v)
            | Some e \<Rightarrow> Capacity (result_vector (PushBack_move T x v w)) = Capacity v)
         \<and> (case outcome (PushBack_copy T x v w) of
              None \<Rightarrow> Capacity (result_vector (PushBack_copy T x v w))
                        = (if size_m v = 0 then 1 else 2 * size_m v)
            | Some e \<Rightarrow> Capacity (result_vector (PushBack_copy T x v w)) = Capacity v))
     \<and> (size_m v \<noteq> Capacity v \<longrightarrow>
           Capacity (result_vector (Emplace T pos a v w)) = Capacity v
         \<and> Capacity (result_vector (PushBack_move T x v w)) = Capacity v
         \<and> Capacity (result_vector (PushBack_copy T x v w)) = Capacity v)
     \<and> Capacity (result_vector (Emplace T pos a v w)) \<in> {Capacity v, 1, 2 * Capacity v}
     \<and> Capacity (result_vector (PushBack_move T x v w)) \<in> {Capacity v, 1, 2 * Capacity v}
     \<and> Capacity (result_vector (PushBack_copy T x v w)) \<in> {Capacity v, 1, 2 * Capacity v}
     \<and> result_vector (EmplaceBack T a v w) = result_vector (Emplace T (size_m v) a v w)
     \<and> result_vector (Insert_copy T pos x v w) = result_vector (Emplace T pos (Const_ref x) v w)
     \<and> result_vector (Insert_move T pos x v w) = result_vector (Emplace T pos (Rvalue x) v w)"
proof -
  have g: "growth_capacity (Capacity v) = (if Capacity v = 0 then 1 else 2 * Capacity v)"
    using assms by (simp add: growth_capacity_small)
  have g0: "growth_capacity 0 = Suc 0"
    by (simp add: growth_capacity_def)
  have e: "size_m v = Capacity v \<longrightarrow>
      (case outcome (Emplace T pos a v w) of
         Inr p \<Rightarrow> Capacity (result_vector (Emplace T pos a v w))
                   = (if size_m v = 0 then 1 else 2 * size_m v)
       | Inl e \<Rightarrow> Capacity (result_vector (Emplace T pos a v w)) = Capacity v)"
    by (simp add: Capacity_Emplace g g0 split: sum.splits)
  have m: "size_m v = Capacity v \<longrightarrow>
      (case outcome (PushBack_move T x v w) of
         None \<Rightarrow> Capacity (result_vector (PushBack_move T x v w))
                   = (if size_m v = 0 then 1 else 2 * size_m v)
       | Some e \<Rightarrow> Capacity (result_vector (PushBack_move T x v w)) = Capacity v)"
    by (simp add: Capacity_PushBack_move g g0 split: option.splits)
  have c: "size_m v = Capacity v \<longrightarrow>
      (case outcome (PushBack_copy T x v w) of
         None \<Rightarrow> Capacity (result_vector (PushBack_copy T x v w))
                   = (if size_m v = 0 then 1 else 2 * size_m v)
       | Some e \<Rightarrow> Capacity (result_vector (PushBack_copy T x v w)) = Capacity v)"
    by (simp add: Capacity_PushBack_copy g g0 split: option.splits)
  have n: "size_m v \<noteq> Capacity v \<longrightarrow>
         Capacity (result_vector (Emplace T pos a v w)) = Capacity v
       \<and> Capacity (result_vector (PushBack_move T x v w)) = Capacity v
       \<and> Capacity (result_vector (PushBack_copy T x v w)) = Capacity v"
    by (simp add: Capacity_Emplace Capacity_PushBack_move Capacity_PushBack_copy)
  have s1: "Capacity (result_vector (Emplace T pos a v w)) \<in> {Capacity v, 1, 2 * Capacity v}"
    by (cases "size_m v = Capacity v")
       (simp_all add: Capacity_Emplace g g0 split: sum.splits)
  have s2: "Capacity (result_vector (PushBack_move T x v w)) \<in> {Capacity v, 1, 2 * Capacity v}"
    by (cases "size_m v = Capacity v")
       (simp_all add: Capacity_PushBack_move g g0 split: option.splits)
  have s3: "Capacity (result_vector (PushBack_copy T x v w)) \<in> {Capacity v, 1, 2 * Capacity v}"
    by (cases "size_m v = Capacity v")
       (simp_all add: Capacity_PushBack_copy g g0 split: option.splits)
  have al: "result_vector (EmplaceBack T a v w) = result_vector (Emplace T (size_m v) a v w)"
      "result_vector (Insert_copy T pos x v w) = result_vector (Emplace T pos (Const_ref x) v w)"
      "result_vector (Insert_move T pos x v w) = result_vector (Emplace T pos (Rvalue x) v w)"
    by (simp_all add: EmplaceBack_def Insert_copy_def Insert_move_def)
  from e m c n s1 s2 s3 al show ?thesis
    by blast
qed

theorem growth_policy_witness:
  "Capacity vec_d < 2 ^ 63 \<and> size_m vec_d = Capacity vec_d
   \<and> outcome (Emplace plain 0 (Const_ref 5) vec_d world_cd) = Inr (Some 3, 0)
   \<and> Capacity (result_vector (Emplace plain 0 (Const_ref 5) vec_d world_cd)) = 2
   \<and> outcome (PushBack_move plain 5 vec_d world_cd) = None
   \<and> Capacity (result_vector (PushBack_move plain 5 vec_d world_cd)) = 2
   \<and> size_m vector_default = Capacity vector_default
   \<and> outcome (Emplace plain 0 (Const_ref 5) vector_default world_cd) = Inr (Some 3, 0)
   \<and> Capacity (result_vector (Emplace plain 0 (Const_ref 5) vector_default world_cd)) = 1"
  using growth_policy [where v = vec_d and T = plain and pos = 0 and a = "Const_ref 5"
      and w = world_cd and x = 5]
    growth_policy [where v = vector_default and T = plain and pos = 0 and a = "Const_ref 5"
      and w = world_cd and x = 5]
  by (simp add: model_defs numeral_unfolds example_defs)

section \<open>The relocation policy\<close>

lemma trace_move_construct:
  "move_construct T sp si dp di w = (None, w1) \<Longrightarrow>
     trace w1 = trace w @ [MoveConstructed (At dp di)]"
  by (auto simp: move_construct_def split: option.splits if_splits)

lemma trace_uninitialized_move_n:
  "uninitialized_move_n T sp si n dp di w = (None, w') \<Longrightarrow>
     trace w' = trace w @ map (\<lambda>j. MoveConstructed (At dp j)) [di..<di + n]"
proof (induction n arbitrary: si di w)
  case 0
  then show ?case by simp
next
  case (Suc n)
  from Suc.prems obtain w1 where
    step: "move_construct T sp si dp di w = (None, w1)" and
    rest: "uninitialized_move_n T sp (Suc si) n dp (Suc di) w1 = (None, w')"
    by (auto simp: and_then_def split: prod.splits option.splits)
  have "[di..<di + Suc n] = di # [Suc di..<Suc di + n]"
    by (simp add: upt_conv_Cons)
  with Suc.IH [OF rest] trace_move_construct [OF step] show ?case
    by simp
qed

lemma trace_copy_loop:
  "copy_loop sp si n dp df di w = (None, w') \<Longrightarrow>
     trace w' = trace w @ map (\<lambda>j. CopyConstructed (At dp j)) [di..<di + n]"
proof (induction n arbitrary: si di w)
  case 0
  then show ?case by simp
next
  case (Suc n)
  show ?case
  proof (cases rule: copy_construct_cases [of sp si dp di w])
    case fault
    with Suc.prems show ?thesis by simp
  next
    case throw
    with Suc.prems show ?thesis by simp
  next
    case (ok x wc)
    have "[di..<di + Suc n] = di # [Suc di..<Suc di + n]"
      by (simp add: upt_conv_Cons)
    moreover from ok Suc.prems have
      "copy_loop sp (Suc si) n dp df (Suc di)
         (emit (CopyConstructed (At dp di)) (store dp di (Live x) wc)) = (None, w')"
      by simp
    from Suc.IH [OF this] have
      "trace w' = (trace w @ [CopyConstructed (At dp di)])
         @ map (\<lambda>j. CopyConstructed (At dp j)) [Suc di..<Suc di + n]"
      using ok(3) by (simp add: charge_copy_fields)
    ultimately show ?thesis by simp
  qed
qed

lemma trace_Uninitialized:
  assumes "Uninitialized T sp si n dp di w = (None, w')"
  shows "trace w' = trace w @ map (\<lambda>j. relocation_event T (At dp j)) [di..<di + n]"
proof (cases "nothrow_move_constructible T \<or> \<not> copy_constructible T")
  case True
  with assms show ?thesis
    using trace_uninitialized_move_n [of T sp si n dp di w w']
    by (simp add: Uninitialized_def relocation_event_def)
next
  case False
  with assms show ?thesis
    using trace_copy_loop [of sp si n dp di di w w']
    by (simp add: Uninitialized_def uninitialized_copy_n_def relocation_event_def)
qed

lemma copies_append [simp]:
  "copy_constructions (es @ fs) = copy_constructions es + copy_constructions fs"
  by (simp add: copy_constructions_def)

lemma copies_single [simp]:
  "copy_constructions [e] = (if is_copy_construction e then 1 else 0)"
  by (simp add: copy_constructions_def)

lemma copies_destroy_n [simp]:
  "copy_constructions (trace (destroy_n p i n w)) = copy_constructions (trace w)"
  by (induction n arbitrary: i w) simp_all

lemma copies_Deallocate [simp]:
  "copy_constructions (trace (Deallocate p w)) = copy_constructions (trace w)"
  by (simp add: Deallocate_def emit_def split: option.splits)

lemma copies_raw_memory_ctor [simp]:
  "copy_constructions (trace (snd (raw_memory_ctor n w))) = copy_constructions (trace w)"
  by (simp add: raw_memory_ctor_def Allocate_def charge_alloc_def emit_def
      split: option.splits prod.splits sum.splits)

lemma copies_move_construct:
  "copy_constructions (trace (snd (move_construct T sp si dp di w)))
     = copy_constructions (trace w)"
  by (simp add: move_construct_def split: option.splits)

lemma copies_uninitialized_move_n [simp]:
  "copy_constructions (trace (snd (uninitialized_move_n T sp si n dp di w)))
     = copy_constructions (trace w)"
proof (induction n arbitrary: si di w)
  case 0
  then show ?case by simp
next
  case (Suc n)
  show ?case
  proof (cases "move_construct T sp si dp di w")
    case (Pair e w1)
    with copies_move_construct [of T sp si dp di w] Suc.IH [of "Suc si" "Suc di" w1]
    show ?thesis
      by (cases e) (simp_all add: and_then_def)
  qed
qed

lemma copies_move_assign_slot:
  "copy_constructions (trace (snd (move_assign_slot T sp si dp di w)))
     = copy_constructions (trace w)"
  by (simp add: move_assign_slot_def split: option.splits)

lemma copies_move_backward [simp]:
  "copy_constructions (trace (snd (move_backward T p first n d_last w)))
     = copy_constructions (trace w)"
proof (induction n arbitrary: d_last w)
  case 0
  then show ?case by simp
next
  case (Suc n)
  show ?case
  proof (cases "move_assign_slot T p (first + n) p (d_last - 1) w")
    case (Pair e w1)
    with copies_move_assign_slot [of T p "first + n" p "d_last - 1" w]
      Suc.IH [of "d_last - 1" w1]
    show ?thesis
      by (cases e) (simp_all add: and_then_def)
  qed
qed

lemma copies_value_construct_n [simp]:
  "copy_constructions (trace (snd (uninitialized_value_construct_n T p i n w)))
     = copy_constructions (trace w)"
proof (induction n arbitrary: i w)
  case 0
  then show ?case by simp
next
  case (Suc n)
  show ?case
    using Suc.IH [of "Suc i" "emit (ValueConstructed (At p i)) (store p i (Live (value_init T)) w)"]
    by (simp add: and_then_def value_construct_def)
qed

lemma copies_construct_from:
  "copy_constructions (trace (snd (construct_from a p i w)))
     \<le> copy_constructions (trace w) + arg_copies a"
  by (cases a)
     (auto simp: construct_from_def copy_construct_def copy_construct_value_def
       move_construct_value_def arg_copies_def charge_copy_fields
       split: option.splits)

lemma copies_construct_local:
  "copy_constructions (trace (snd (construct_local a w)))
     \<le> copy_constructions (trace w) + arg_copies a"
  by (cases a)
     (auto simp: construct_local_def arg_copies_def charge_copy_fields split: option.splits)

lemma copies_raw_memory_ctorD:
  "raw_memory_ctor n w = (r, w1) \<Longrightarrow>
     copy_constructions (trace w1) = copy_constructions (trace w)"
  using copies_raw_memory_ctor [of n w] by simp

lemma copies_uninitialized_move_nD:
  "uninitialized_move_n T sp si n dp di w = (e, w') \<Longrightarrow>
     copy_constructions (trace w') = copy_constructions (trace w)"
  using copies_uninitialized_move_n [of T sp si n dp di w] by simp

lemma copies_value_construct_nD:
  "uninitialized_value_construct_n T p i n w = (e, w') \<Longrightarrow>
     copy_constructions (trace w') = copy_constructions (trace w)"
  using copies_value_construct_n [of T p i n w] by simp

lemma copies_construct_fromD:
  "construct_from a p i w = (e, w') \<Longrightarrow>
     copy_constructions (trace w') \<le> copy_constructions (trace w) + arg_copies a"
  using copies_construct_from [of a p i w] by simp

lemma copies_construct_localD:
  "construct_local a w = (r, w') \<Longrightarrow>
     copy_constructions (trace w') \<le> copy_constructions (trace w) + arg_copies a"
  using copies_construct_local [of a w] by simp

lemma copies_move_constructD:
  "move_construct T sp si dp di w = (e, w') \<Longrightarrow>
     copy_constructions (trace w') = copy_constructions (trace w)"
  using copies_move_construct [of T sp si dp di w] by simp

lemma copies_move_backwardD:
  "move_backward T p first n d_last w = (e, w') \<Longrightarrow>
     copy_constructions (trace w') = copy_constructions (trace w)"
  using copies_move_backward [of T p first n d_last w] by simp

lemma copies_move_assign_valueD:
  "move_assign_value x p i w = (e, w') \<Longrightarrow>
     copy_constructions (trace w') = copy_constructions (trace w)"
  by (auto simp: move_assign_value_def split: option.splits)

lemma copies_move_construct_valueD:
  "move_construct_value x p i w = (e, w') \<Longrightarrow>
     copy_constructions (trace w') = copy_constructions (trace w)"
  by (auto simp: move_construct_value_def split: if_splits)

lemma copies_Reserve:
  assumes "nothrow_move_constructible T"
  shows "copy_constructions (trace (result_world (Reserve T k v w)))
           = copy_constructions (trace w)"
  using assms
  by (auto simp: Reserve_def Uninitialized_def DestroyAndSwap_def raw_memory_dtor_def
      result_world_def
      split: prod.splits sum.splits option.splits
      dest!: copies_raw_memory_ctorD copies_uninitialized_move_nD)

lemma copies_ReserveD:
  "nothrow_move_constructible T \<Longrightarrow> Reserve T k v w = (e, v', w') \<Longrightarrow>
     copy_constructions (trace w') = copy_constructions (trace w)"
  using copies_Reserve [of T k v w] by (simp add: result_world_def)

lemma copies_Resize:
  assumes "nothrow_move_constructible T"
  shows "copy_constructions (trace (result_world (Resize T k v w)))
           = copy_constructions (trace w)"
  by (auto simp: Resize_def result_world_def
      split: prod.splits sum.splits option.splits if_splits
      dest!: copies_ReserveD [OF assms] copies_value_construct_nD)

lemma copies_PushBack_move:
  assumes "nothrow_move_constructible T"
  shows "copy_constructions (trace (result_world (PushBack_move T x v w)))
           = copy_constructions (trace w)"
  using assms
  by (auto simp: PushBack_move_def Uninitialized_def DestroyAndSwap_def raw_memory_dtor_def
      result_world_def and_then_def
      split: prod.splits sum.splits option.splits
      dest!: copies_raw_memory_ctorD copies_uninitialized_move_nD copies_move_construct_valueD)

lemma copies_ReallocationEmplace:
  assumes "nothrow_move_constructible T"
  shows "copy_constructions (trace (result_world (ReallocationEmplace T pos a v w)))
           \<le> copy_constructions (trace w) + arg_copies a"
  using assms
  by (auto simp: ReallocationEmplace_def Uninitialized_def DestroyAndSwap_def
      raw_memory_dtor_def result_world_def and_then_def
      split: prod.splits sum.splits option.splits if_splits
      dest!: copies_raw_memory_ctorD copies_uninitialized_move_nD copies_construct_fromD)

lemma copies_NoReallocationEmplace:
  "copy_constructions (trace (result_world (NoReallocationEmplace T pos a v w)))
           \<le> copy_constructions (trace w) + arg_copies a"
  by (auto simp: NoReallocationEmplace_def result_world_def and_then_def
      split: prod.splits sum.splits option.splits if_splits
      dest!: copies_construct_fromD copies_construct_localD copies_move_constructD
        copies_move_backwardD copies_move_assign_valueD)

text \<open>
  C7. Relocation into a new buffer builds each element with the move constructor when
  \<open>T\<close> is nothrow-move-constructible or not copy-constructible, and with the copy
  constructor otherwise: a relocation of \<open>n\<close> elements that returns has recorded exactly
  these \<open>n\<close> constructor calls, in order of the slots. For a nothrow-move-constructible
  \<open>T\<close>, \<^verbatim>\<open>Reserve\<close>, \<^verbatim>\<open>Resize\<close> and \<^verbatim>\<open>PushBack(T&&)\<close> call no copy
  constructor whatever their outcome, and \<^verbatim>\<open>Emplace\<close> calls it at most for the
  new element, when its argument asks for a copy.
\<close>

theorem relocation_policy:
  "(Uninitialized T sp si n dp di w = (None, w') \<longrightarrow>
      trace w' = trace w @ map (\<lambda>j. relocation_event T (At dp j)) [di..<di + n])
   \<and> (nothrow_move_constructible T \<longrightarrow>
        copy_constructions (trace (result_world (Reserve T k v w)))
          = copy_constructions (trace w)
      \<and> copy_constructions (trace (result_world (Resize T k v w)))
          = copy_constructions (trace w)
      \<and> copy_constructions (trace (result_world (PushBack_move T x v w)))
          = copy_constructions (trace w)
      \<and> copy_constructions (trace (result_world (Emplace T pos a v w)))
          \<le> copy_constructions (trace w) + arg_copies a)"
  using trace_Uninitialized [of T sp si n dp di w w'] copies_Reserve [of T k v w]
    copies_Resize [of T k v w] copies_PushBack_move [of T x v w]
    copies_ReallocationEmplace [of T pos a v w] copies_NoReallocationEmplace [of T pos a v w]
  by (simp add: Emplace_def)

theorem relocation_policy_witness:
  "Uninitialized plain (Some 2) 0 2 (Some 1) 1 world_ab
     = (None, snd (Uninitialized plain (Some 2) 0 2 (Some 1) 1 world_ab))
   \<and> trace (snd (Uninitialized plain (Some 2) 0 2 (Some 1) 1 world_ab))
       = [MoveConstructed (At (Some 1) 1), MoveConstructed (At (Some 1) 2)]
   \<and> nothrow_move_constructible plain
   \<and> outcome (Reserve plain 4 vec_b world_ab) = None
   \<and> copy_constructions (trace (result_world (Reserve plain 4 vec_b world_ab))) = 0
   \<and> outcome (Emplace plain 1 (Slot_ref (Some 2) 0) vec_b world_ab) = Inr (Some 3, 1)
   \<and> copy_constructions
         (trace (result_world (Emplace plain 1 (Slot_ref (Some 2) 0) vec_b world_ab))) = 1
   \<and> Uninitialized copying (Some 2) 0 2 (Some 1) 1 world_ab
       = (None, snd (Uninitialized copying (Some 2) 0 2 (Some 1) 1 world_ab))
   \<and> trace (snd (Uninitialized copying (Some 2) 0 2 (Some 1) 1 world_ab))
       = [CopyConstructed (At (Some 1) 1), CopyConstructed (At (Some 1) 2)]"
  using relocation_policy [where T = plain and sp = "Some 2" and si = 0 and n = 2
      and dp = "Some 1" and di = 1 and w = world_ab
      and w' = "snd (Uninitialized plain (Some 2) 0 2 (Some 1) 1 world_ab)"
      and k = 4 and v = vec_b and pos = 1 and a = "Slot_ref (Some 2) 0"]
    relocation_policy [where T = copying and sp = "Some 2" and si = 0 and n = 2
      and dp = "Some 1" and di = 1 and w = world_ab
      and w' = "snd (Uninitialized copying (Some 2) 0 2 (Some 1) 1 world_ab)"]
  by (simp add: model_defs numeral_unfolds example_defs)

section \<open>Failure during growth\<close>

lemma slots_Some [simp]: "slots w (Some a) = heap w a"
  by (simp add: slots_def)

lemma raw_memory_ctor_Inl:
  "raw_memory_ctor n w = (Inl e, w1) \<Longrightarrow> e = AllocationFailure \<and> w1 = w"
  by (auto simp: raw_memory_ctor_def Allocate_def split: if_splits option.splits)

lemma raw_memory_ctor_Inr:
  assumes "raw_memory_ctor n w = (Inr nd, w1)"
  shows "capacity_m nd = n"
    and "next_addr w \<le> next_addr w1"
    and "copy_budget w1 = copy_budget w"
    and "case buffer_m nd of
           None \<Rightarrow> n = 0 \<and> w1 = w
         | Some d \<Rightarrow> n \<noteq> 0 \<and> d = next_addr w \<and> next_addr w1 = Suc d
                     \<and> heap w1 = (heap w)(d := replicate n Raw)"
  using assms
  by (auto simp: raw_memory_ctor_def Allocate_def charge_alloc_def emit_def
      split: if_splits option.splits)

lemma heap_raw_memory_dtor_restores:
  assumes frame: "\<And>q. q \<noteq> buffer_m nd \<Longrightarrow> slots w2 q = slots w1 q"
    and ctor: "raw_memory_ctor n w = (Inr nd, w1)"
    and free: "heap w (next_addr w) = []"
  shows "heap (raw_memory_dtor nd w2) = heap w"
proof (cases "buffer_m nd")
  case None
  with raw_memory_ctor_Inr(4) [OF ctor] have "w1 = w" by simp
  moreover have "heap w2 a = heap w1 a" for a
    using frame [of "Some a"] None by simp
  ultimately show ?thesis
    using None by (auto simp: raw_memory_dtor_def Deallocate_def)
next
  case (Some d)
  with raw_memory_ctor_Inr(4) [OF ctor]
  have d: "d = next_addr w" and h1: "heap w1 = (heap w)(d := replicate n Raw)"
    by simp_all
  have "heap w2 a = heap w1 a" if "a \<noteq> d" for a
    using frame [of "Some a"] Some that by simp
  with h1 free d show ?thesis
    using Some by (auto simp: raw_memory_dtor_def Deallocate_def emit_def fun_eq_iff)
qed

lemma construct_from_frame:
  "q \<noteq> p \<Longrightarrow> slots (snd (construct_from a p i w)) q = slots w q"
  by (cases a)
     (auto simp: construct_from_def copy_construct_def copy_construct_value_def
       move_construct_value_def charge_copy_fields split: option.splits)

lemma move_construct_value_frame:
  "q \<noteq> p \<Longrightarrow> slots (snd (move_construct_value x p i w)) q = slots w q"
  by (auto simp: move_construct_value_def)

lemma Uninitialized_failure:
  assumes "Uninitialized T sp si n dp di w = (Some e, w')" "e \<noteq> Fault"
  shows "\<not> (nothrow_move_constructible T \<or> \<not> copy_constructible T)"
proof
  assume "nothrow_move_constructible T \<or> \<not> copy_constructible T"
  with assms(1) have "fst (uninitialized_move_n T sp si n dp di w) = Some e"
    by (simp add: Uninitialized_def)
  with assms(2) uninitialized_move_n_error [of T sp si n dp di w] show False
    by simp
qed

lemma Uninitialized_copy_frame:
  assumes "\<not> (nothrow_move_constructible T \<or> \<not> copy_constructible T)" "q \<noteq> dp"
  shows "slots (snd (Uninitialized T sp si n dp di w)) q = slots w q"
  using assms by (simp add: Uninitialized_def uninitialized_copy_n_def copy_loop_frame)

lemma uninitialized_value_construct_n_error:
  "fst (uninitialized_value_construct_n T p i n w) = None
   \<or> fst (uninitialized_value_construct_n T p i n w) = Some Fault"
  by (induction n arbitrary: i w) (auto simp: and_then_def value_construct_def)

lemma Reserve_failure:
  assumes free: "heap w (next_addr w) = []"
    and fail: "Reserve T k v w = (Some e, v', w')" "e \<noteq> Fault"
  shows "v' = v \<and> heap w' = heap w"
proof (cases "raw_memory_ctor k w")
  case (Pair r w1)
  from fail(1) have big: "\<not> k < Capacity v"
    by (auto simp: Reserve_def)
  show ?thesis
  proof (cases r)
    case (Inl a)
    with Pair fail big raw_memory_ctor_Inl [of k w a w1] show ?thesis
      by (simp add: Reserve_def)
  next
    case (Inr nd)
    obtain e2 w2 where U: "Uninitialized T (begin_ptr v) 0 (size_m v) (buffer_m nd) 0 w1 = (e2, w2)"
      by (cases "Uninitialized T (begin_ptr v) 0 (size_m v) (buffer_m nd) 0 w1") auto
    with Pair Inr fail big have e2: "e2 = Some e" and v': "v' = v"
      and w': "w' = raw_memory_dtor nd w2"
      by (auto simp: Reserve_def DestroyAndSwap_def raw_memory_Swap_def split: option.splits)
    from U e2 fail(2) have copy: "\<not> (nothrow_move_constructible T \<or> \<not> copy_constructible T)"
      using Uninitialized_failure by blast
    have "slots w2 q = slots w1 q" if "q \<noteq> buffer_m nd" for q
      using Uninitialized_copy_frame [OF copy that, of "begin_ptr v" 0 "size_m v" 0 w1] U
      by simp
    then have "heap (raw_memory_dtor nd w2) = heap w"
      using Pair Inr free by (intro heap_raw_memory_dtor_restores [where ?w1.0 = w1 and n = k]) simp_all
    with v' w' show ?thesis by simp
  qed
qed

lemma Resize_failure:
  assumes free: "heap w (next_addr w) = []"
    and grow: "size_m v < k"
    and fail: "Resize T k v w = (Some e, v', w')" "e \<noteq> Fault"
  shows "v' = v \<and> heap w' = heap w"
proof (cases "Reserve T k v w")
  case (fields e1 v1 w1)
  show ?thesis
  proof (cases e1)
    case None
    obtain e2 w2 where V: "uninitialized_value_construct_n T (begin_ptr v1) (size_m v1)
        (k - size_m v1) w1 = (e2, w2)"
      by (cases "uninitialized_value_construct_n T (begin_ptr v1) (size_m v1)
        (k - size_m v1) w1") auto
    with fields None grow fail have "e2 = Some e"
      by (auto simp: Resize_def split: option.splits)
    with V fail(2) uninitialized_value_construct_n_error
      [of T "begin_ptr v1" "size_m v1" "k - size_m v1" w1]
    show ?thesis by simp
  next
    case (Some a)
    with fields grow fail have "Reserve T k v w = (Some e, v', w')"
      by (simp add: Resize_def)
    with Reserve_failure [OF free _ fail(2)] show ?thesis by blast
  qed
qed

lemma PushBack_move_failure:
  assumes free: "heap w (next_addr w) = []"
    and full: "size_m v = Capacity v"
    and fail: "PushBack_move T x v w = (Some e, v', w')" "e \<noteq> Fault"
  shows "v' = v \<and> heap w' = heap w"
proof (cases "raw_memory_ctor (growth_capacity (size_m v)) w")
  case (Pair r w1)
  show ?thesis
  proof (cases r)
    case (Inl a)
    with Pair fail full raw_memory_ctor_Inl [of "growth_capacity (size_m v)" w a w1]
    show ?thesis
      by (simp add: PushBack_move_def)
  next
    case (Inr nd)
    obtain e1 w2 where C: "move_construct_value x (buffer_m nd) (size_m v) w1 = (e1, w2)"
      by (cases "move_construct_value x (buffer_m nd) (size_m v) w1") auto
    obtain e2 w3 where U: "Uninitialized T (begin_ptr v) 0 (size_m v) (buffer_m nd) 0 w2 = (e2, w3)"
      by (cases "Uninitialized T (begin_ptr v) 0 (size_m v) (buffer_m nd) 0 w2") auto
    have f1: "slots w2 q = slots w1 q" if "q \<noteq> buffer_m nd" for q
      using move_construct_value_frame [OF that, of x "size_m v" w1] C by simp
    have "v' = v \<and> (\<exists>w4. w' = raw_memory_dtor nd w4
        \<and> (\<forall>q. q \<noteq> buffer_m nd \<longrightarrow> slots w4 q = slots w1 q))"
    proof (cases e1)
      case (Some a)
      with Pair Inr fail full C f1 show ?thesis
        by (auto simp: PushBack_move_def and_then_def)
    next
      case None
      with Pair Inr fail full C U have e2: "e2 = Some e" and v': "v' = v"
        and w': "w' = raw_memory_dtor nd w3"
        by (auto simp: PushBack_move_def and_then_def DestroyAndSwap_def raw_memory_Swap_def
            split: option.splits)
      from U e2 fail(2) have copy: "\<not> (nothrow_move_constructible T \<or> \<not> copy_constructible T)"
        using Uninitialized_failure by blast
      have "slots w3 q = slots w1 q" if "q \<noteq> buffer_m nd" for q
        using Uninitialized_copy_frame [OF copy that, of "begin_ptr v" 0 "size_m v" 0 w2] U
          f1 [OF that]
        by simp
      with v' w' show ?thesis by blast
    qed
    then obtain w4 where v': "v' = v" and w': "w' = raw_memory_dtor nd w4"
      and fr: "\<And>q. q \<noteq> buffer_m nd \<Longrightarrow> slots w4 q = slots w1 q"
      by blast
    have "heap (raw_memory_dtor nd w4) = heap w"
      using Pair Inr free fr
      by (intro heap_raw_memory_dtor_restores
            [where ?w1.0 = w1 and n = "growth_capacity (size_m v)"]) simp_all
    with v' w' show ?thesis by simp
  qed
qed

lemma ReallocationEmplace_failure:
  assumes free: "heap w (next_addr w) = []"
    and fail: "ReallocationEmplace T pos a v w = (Inl e, v', w')" "e \<noteq> Fault"
  shows "v' = v \<and> heap w' = heap w"
proof (cases "raw_memory_ctor (growth_capacity (size_m v)) w")
  case (Pair r w1)
  show ?thesis
  proof (cases r)
    case (Inl b)
    with Pair fail raw_memory_ctor_Inl [of "growth_capacity (size_m v)" w b w1]
    show ?thesis
      by (simp add: ReallocationEmplace_def)
  next
    case (Inr nd)
    let ?dp = "buffer_m nd"
    obtain e1 w2 where C: "construct_from a ?dp pos w1 = (e1, w2)"
      by (cases "construct_from a ?dp pos w1") auto
    obtain e2 w3 where U1: "Uninitialized T (begin_ptr v) 0 pos ?dp 0 w2 = (e2, w3)"
      by (cases "Uninitialized T (begin_ptr v) 0 pos ?dp 0 w2") auto
    obtain e3 w4 where U2: "Uninitialized T (begin_ptr v) pos (size_m v - pos) ?dp (pos + 1) w3
        = (e3, w4)"
      by (cases "Uninitialized T (begin_ptr v) pos (size_m v - pos) ?dp (pos + 1) w3") auto
    have f1: "slots w2 q = slots w1 q" if "q \<noteq> ?dp" for q
      using construct_from_frame [OF that, of a pos w1] C by simp
    have "v' = v \<and> (\<exists>w5. w' = raw_memory_dtor nd w5
        \<and> (\<forall>q. q \<noteq> ?dp \<longrightarrow> slots w5 q = slots w1 q))"
    proof (cases e1)
      case (Some b)
      with Pair Inr fail C f1 show ?thesis
        by (auto simp: ReallocationEmplace_def and_then_def)
    next
      case None
      note e1 = this
      show ?thesis
      proof (cases e2)
        case (Some b)
        with e1 Pair Inr fail C U1 have b: "b = e" and v': "v' = v"
          and w': "w' = raw_memory_dtor nd w3"
          by (auto simp: ReallocationEmplace_def and_then_def)
        from U1 Some b fail(2)
        have copy: "\<not> (nothrow_move_constructible T \<or> \<not> copy_constructible T)"
          using Uninitialized_failure by blast
        have "slots w3 q = slots w1 q" if "q \<noteq> ?dp" for q
          using Uninitialized_copy_frame [OF copy that, of "begin_ptr v" 0 pos 0 w2] U1
            f1 [OF that]
          by simp
        with v' w' show ?thesis by blast
      next
        case None
        with e1 Pair Inr fail C U1 U2 have in_range: "pos \<le> size_m v"
          and e3: "e3 = Some e" and v': "v' = v" and w': "w' = raw_memory_dtor nd w4"
          by (auto simp: ReallocationEmplace_def and_then_def DestroyAndSwap_def
              raw_memory_Swap_def split: option.splits if_splits)
        from U2 e3 fail(2)
        have copy: "\<not> (nothrow_move_constructible T \<or> \<not> copy_constructible T)"
          using Uninitialized_failure by blast
        have "slots w4 q = slots w1 q" if "q \<noteq> ?dp" for q
          using Uninitialized_copy_frame [OF copy that, of "begin_ptr v" 0 pos 0 w2] U1
            Uninitialized_copy_frame
              [OF copy that, of "begin_ptr v" pos "size_m v - pos" "pos + 1" w3] U2
            f1 [OF that]
          by simp
        with v' w' show ?thesis by blast
      qed
    qed
    then obtain w5 where v': "v' = v" and w': "w' = raw_memory_dtor nd w5"
      and fr: "\<And>q. q \<noteq> ?dp \<Longrightarrow> slots w5 q = slots w1 q"
      by blast
    have "heap (raw_memory_dtor nd w5) = heap w"
      using Pair Inr free fr
      by (intro heap_raw_memory_dtor_restores
            [where ?w1.0 = w1 and n = "growth_capacity (size_m v)"]) simp_all
    with v' w' show ?thesis by simp
  qed
qed

lemma unchangedI: "v' = v \<and> heap w' = heap w \<Longrightarrow> unchanged w v (r, v', w')"
  by (auto simp: unchanged_def result_vector_def result_world_def contents_def slots_def
      split: option.splits)

lemma Reserve_unchanged:
  assumes "heap w (next_addr w) = []"
    and "outcome (Reserve T k v w) \<in> {Some AllocationFailure, Some ElementConstructionFailure}"
  shows "unchanged w v (Reserve T k v w)"
proof (cases "Reserve T k v w")
  case (fields r v' w')
  with assms(2) obtain e where "r = Some e" "e \<noteq> Fault"
    by (auto simp: outcome_def)
  with fields Reserve_failure [OF assms(1), of T k v e v' w'] show ?thesis
    by (simp add: unchangedI)
qed

lemma Resize_unchanged:
  assumes "heap w (next_addr w) = []" "size_m v < k"
    and "outcome (Resize T k v w) \<in> {Some AllocationFailure, Some ElementConstructionFailure}"
  shows "unchanged w v (Resize T k v w)"
proof (cases "Resize T k v w")
  case (fields r v' w')
  with assms(3) obtain e where "r = Some e" "e \<noteq> Fault"
    by (auto simp: outcome_def)
  with fields Resize_failure [OF assms(1,2), of T e v' w'] show ?thesis
    by (simp add: unchangedI)
qed

lemma PushBack_move_unchanged:
  assumes "heap w (next_addr w) = []" "size_m v = Capacity v"
    and "outcome (PushBack_move T x v w)
           \<in> {Some AllocationFailure, Some ElementConstructionFailure}"
  shows "unchanged w v (PushBack_move T x v w)"
proof (cases "PushBack_move T x v w")
  case (fields r v' w')
  with assms(3) obtain e where "r = Some e" "e \<noteq> Fault"
    by (auto simp: outcome_def)
  with fields PushBack_move_failure [OF assms(1,2), of T x e v' w'] show ?thesis
    by (simp add: unchangedI)
qed

lemma Emplace_unchanged:
  assumes "heap w (next_addr w) = []" "size_m v = Capacity v"
    and "outcome (Emplace T pos a v w)
           \<in> {Inl AllocationFailure, Inl ElementConstructionFailure}"
  shows "unchanged w v (Emplace T pos a v w)"
proof (cases "ReallocationEmplace T pos a v w")
  case (fields r v' w')
  with assms(2,3) obtain e where "r = Inl e" "e \<noteq> Fault"
    by (auto simp: outcome_def Emplace_def)
  with fields assms(2) ReallocationEmplace_failure [OF assms(1), of T pos a v e v' w']
  show ?thesis
    by (simp add: unchangedI Emplace_def)
qed

lemma PushBack_copy_unchanged:
  assumes "heap w (next_addr w) = []" "size_m v = Capacity v"
    and "outcome (PushBack_copy T x v w)
           \<in> {Some AllocationFailure, Some ElementConstructionFailure}"
  shows "unchanged w v (PushBack_copy T x v w)"
proof (cases "Emplace T (size_m v) (Const_ref x) v w")
  case (fields r v' w')
  with assms(3) have "outcome (Emplace T (size_m v) (Const_ref x) v w)
      \<in> {Inl AllocationFailure, Inl ElementConstructionFailure}"
    by (cases r) (auto simp: PushBack_copy_def EmplaceBack_def outcome_def)
  from Emplace_unchanged [OF assms(1,2) this] fields show ?thesis
    by (cases r)
       (auto simp: PushBack_copy_def EmplaceBack_def unchanged_def result_vector_def
         result_world_def)
qed

text \<open>
  C6. When a growth operation (\<^verbatim>\<open>Reserve\<close>, a growing \<^verbatim>\<open>Resize\<close>, and
  \<^verbatim>\<open>PushBack\<close>, \<^verbatim>\<open>EmplaceBack\<close>, \<^verbatim>\<open>Emplace\<close>, \<^verbatim>\<open>Insert\<close> at
  \<open>size = capacity\<close>) ends with an allocation failure or with a failure of an element
  copy, the vector is as before the call: same buffer, capacity and size, and the same
  elements in an unchanged heap. The one thing asked of the world is that the next address
  of the allocator is free.
\<close>

theorem growth_strong_guarantee:
  assumes "heap w (next_addr w) = []"
  shows "(outcome (Reserve T k v w) \<in> {Some AllocationFailure, Some ElementConstructionFailure}
            \<longrightarrow> unchanged w v (Reserve T k v w))
     \<and> (size_m v < k \<longrightarrow>
          outcome (Resize T k v w) \<in> {Some AllocationFailure, Some ElementConstructionFailure}
            \<longrightarrow> unchanged w v (Resize T k v w))
     \<and> (size_m v = Capacity v \<longrightarrow>
          (outcome (PushBack_move T x v w)
             \<in> {Some AllocationFailure, Some ElementConstructionFailure}
             \<longrightarrow> unchanged w v (PushBack_move T x v w))
        \<and> (outcome (PushBack_copy T x v w)
             \<in> {Some AllocationFailure, Some ElementConstructionFailure}
             \<longrightarrow> unchanged w v (PushBack_copy T x v w))
        \<and> (outcome (Emplace T pos a v w)
             \<in> {Inl AllocationFailure, Inl ElementConstructionFailure}
             \<longrightarrow> unchanged w v (Emplace T pos a v w))
        \<and> (outcome (EmplaceBack T a v w)
             \<in> {Inl AllocationFailure, Inl ElementConstructionFailure}
             \<longrightarrow> unchanged w v (EmplaceBack T a v w))
        \<and> (outcome (Insert_copy T pos x v w)
             \<in> {Inl AllocationFailure, Inl ElementConstructionFailure}
             \<longrightarrow> unchanged w v (Insert_copy T pos x v w))
        \<and> (outcome (Insert_move T pos x v w)
             \<in> {Inl AllocationFailure, Inl ElementConstructionFailure}
             \<longrightarrow> unchanged w v (Insert_move T pos x v w)))"
  using Reserve_unchanged [OF assms, of T k v] Resize_unchanged [OF assms, of v k T]
    PushBack_move_unchanged [OF assms, of v T x] PushBack_copy_unchanged [OF assms, of v T x]
    Emplace_unchanged [OF assms, of v T pos a]
    Emplace_unchanged [OF assms, of v T "size_m v" a]
    Emplace_unchanged [OF assms, of v T pos "Const_ref x"]
    Emplace_unchanged [OF assms, of v T pos "Rvalue x"]
  unfolding EmplaceBack_def Insert_copy_def Insert_move_def
  by blast

theorem growth_strong_guarantee_witness:
  "heap (world_cd\<lparr>copy_budget := Some 1\<rparr>) (next_addr (world_cd\<lparr>copy_budget := Some 1\<rparr>)) = []
   \<and> outcome (Reserve copying 4 vec_c (world_cd\<lparr>copy_budget := Some 1\<rparr>))
       = Some ElementConstructionFailure
   \<and> unchanged (world_cd\<lparr>copy_budget := Some 1\<rparr>) vec_c
         (Reserve copying 4 vec_c (world_cd\<lparr>copy_budget := Some 1\<rparr>))
   \<and> contents (result_world (Reserve copying 4 vec_c (world_cd\<lparr>copy_budget := Some 1\<rparr>)))
         (result_vector (Reserve copying 4 vec_c (world_cd\<lparr>copy_budget := Some 1\<rparr>)))
       = [Live 10, Live 20]
   \<and> size_m vec_c = Capacity vec_c
   \<and> outcome (Emplace copying 1 (Const_ref 5) vec_c (world_cd\<lparr>copy_budget := Some 2\<rparr>))
       = Inl ElementConstructionFailure
   \<and> unchanged (world_cd\<lparr>copy_budget := Some 2\<rparr>) vec_c
         (Emplace copying 1 (Const_ref 5) vec_c (world_cd\<lparr>copy_budget := Some 2\<rparr>))
   \<and> outcome (PushBack_move plain 5 vec_c (world_cd\<lparr>alloc_budget := Some 0\<rparr>))
       = Some AllocationFailure
   \<and> unchanged (world_cd\<lparr>alloc_budget := Some 0\<rparr>) vec_c
         (PushBack_move plain 5 vec_c (world_cd\<lparr>alloc_budget := Some 0\<rparr>))"
proof -
  have free: "heap (world_cd\<lparr>copy_budget := b\<rparr>) (next_addr (world_cd\<lparr>copy_budget := b\<rparr>)) = []"
    "heap (world_cd\<lparr>alloc_budget := b\<rparr>) (next_addr (world_cd\<lparr>alloc_budget := b\<rparr>)) = []"
    for b
    by (simp_all add: example_defs)
  have r: "outcome (Reserve copying 4 vec_c (world_cd\<lparr>copy_budget := Some 1\<rparr>))
       = Some ElementConstructionFailure"
    by (simp add: model_defs numeral_unfolds example_defs)
  have e: "outcome (Emplace copying 1 (Const_ref 5) vec_c (world_cd\<lparr>copy_budget := Some 2\<rparr>))
       = Inl ElementConstructionFailure"
    by (simp add: model_defs numeral_unfolds example_defs)
  have p: "outcome (PushBack_move plain 5 vec_c (world_cd\<lparr>alloc_budget := Some 0\<rparr>))
       = Some AllocationFailure"
    by (simp add: model_defs numeral_unfolds example_defs)
  have full: "size_m vec_c = Capacity vec_c"
    by (simp add: Capacity_def example_defs)
  have u1: "unchanged (world_cd\<lparr>copy_budget := Some 1\<rparr>) vec_c
         (Reserve copying 4 vec_c (world_cd\<lparr>copy_budget := Some 1\<rparr>))"
    using growth_strong_guarantee [OF free(1) [of "Some 1"], of copying 4 vec_c] r by simp
  have u2: "unchanged (world_cd\<lparr>copy_budget := Some 2\<rparr>) vec_c
         (Emplace copying 1 (Const_ref 5) vec_c (world_cd\<lparr>copy_budget := Some 2\<rparr>))"
    using growth_strong_guarantee [OF free(1) [of "Some 2"], where v = vec_c and T = copying
        and pos = 1 and a = "Const_ref 5"] e full
    by simp
  have u3: "unchanged (world_cd\<lparr>alloc_budget := Some 0\<rparr>) vec_c
         (PushBack_move plain 5 vec_c (world_cd\<lparr>alloc_budget := Some 0\<rparr>))"
    using growth_strong_guarantee [OF free(2) [of "Some 0"], where v = vec_c and T = plain
        and x = 5] p full
    by simp
  have c: "contents (result_world (Reserve copying 4 vec_c (world_cd\<lparr>copy_budget := Some 1\<rparr>)))
         (result_vector (Reserve copying 4 vec_c (world_cd\<lparr>copy_budget := Some 1\<rparr>)))
       = [Live 10, Live 20]"
    using u1 by (simp add: unchanged_def contents_def begin_ptr_def slots_def example_defs)
  from free(1) [of "Some 1"] r u1 c full e u2 p u3 show ?thesis
    by simp
qed

section \<open>What the algorithms build when nothing throws\<close>

lemma slots_Deallocate:
  "slots (Deallocate p w) q = (if p = q then [] else slots w q)"
  by (cases p; cases q) (auto simp: Deallocate_def emit_def slots_def)

lemma Uninitialized_spec:
  assumes "sp \<noteq> dp" "si + n \<le> length (slots w sp)" "di + n \<le> length (slots w dp)"
      "list_all is_live (take n (drop si (slots w sp)))"
      "fst (Uninitialized T sp si n dp di w) \<noteq> Some ElementConstructionFailure"
  shows "\<exists>w'. Uninitialized T sp si n dp di w = (None, w')
      \<and> slots w' dp = take di (slots w dp) @ take n (drop si (slots w sp)) @ drop (di + n) (slots w dp)
      \<and> length (slots w' sp) = length (slots w sp)
      \<and> drop (si + n) (slots w' sp) = drop (si + n) (slots w sp)
      \<and> (\<forall>q. q \<noteq> sp \<longrightarrow> q \<noteq> dp \<longrightarrow> slots w' q = slots w q)"
proof (cases "nothrow_move_constructible T \<or> \<not> copy_constructible T")
  case True
  with uninitialized_move_n_spec [OF assms(1-4), of T] show ?thesis
    by (auto simp: Uninitialized_def)
next
  case False
  then have U: "Uninitialized T sp si n dp di w = copy_loop sp si n dp di di w"
    by (simp add: Uninitialized_def uninitialized_copy_n_def)
  with assms(5) have "fst (copy_loop sp si n dp di di w) \<noteq> Some ElementConstructionFailure"
    by simp
  from copy_loop_spec [OF assms(1-4) this] obtain w' where
    w': "copy_loop sp si n dp di di w = (None, w')"
      "slots w' dp = take di (slots w dp) @ take n (drop si (slots w sp)) @ drop (di + n) (slots w dp)"
    by blast
  have "slots w' q = slots w q" if "q \<noteq> dp" for q
    using copy_loop_frame [OF that, of sp si n di di w] w'(1) by simp
  with w' U assms(1) show ?thesis
    by simp
qed

lemma arg_value_charge_copy:
  "charge_copy w = Some wc \<Longrightarrow> arg_value wc a = arg_value w a"
  by (cases a) (simp_all add: arg_value_def load_def charge_copy_fields)

lemma construct_from_spec:
  assumes "arg_value w a = Some x" "i < length (slots w p)"
    "fst (construct_from a p i w) \<noteq> Some ElementConstructionFailure"
  shows "\<exists>w'. construct_from a p i w = (None, w')
      \<and> slots w' p = (slots w p)[i := Live x]
      \<and> (\<forall>q. q \<noteq> p \<longrightarrow> slots w' q = slots w q)"
proof (cases "charge_copy w")
  case None
  with assms show ?thesis
    by (cases a)
       (auto simp: construct_from_def copy_construct_def copy_construct_value_def
         move_construct_value_def arg_value_def)
next
  case (Some wc)
  with assms show ?thesis
    by (cases a)
       (auto simp: construct_from_def copy_construct_def copy_construct_value_def
         move_construct_value_def arg_value_def charge_copy_fields)
qed

lemma construct_local_spec:
  assumes "arg_value w a = Some x"
    "fst (construct_local a w) \<noteq> Inl ElementConstructionFailure"
  shows "\<exists>w'. construct_local a w = (Inr x, w') \<and> (\<forall>q. slots w' q = slots w q)"
proof (cases "charge_copy w")
  case None
  with assms show ?thesis
    by (cases a) (auto simp: construct_local_def arg_value_def)
next
  case (Some wc)
  with assms show ?thesis
    by (cases a) (auto simp: construct_local_def arg_value_def charge_copy_fields)
qed

lemma drop_update_same:
  "k < length xs \<Longrightarrow> drop k (xs[k := b]) = b # drop (Suc k) xs"
  using Cons_nth_drop_Suc [of k "xs[k := b]"] by simp

lemma move_backward_spec:
  assumes "first + n < length (slots w p)"
    "\<forall>i. first \<le> i \<and> i \<le> first + n \<longrightarrow> is_live (slots w p ! i)"
  shows "\<exists>w'. move_backward T p first n (first + n + 1) w = (None, w')
      \<and> length (slots w' p) = length (slots w p)
      \<and> is_live (slots w' p ! first)
      \<and> (\<forall>z. (slots w' p)[first := z]
             = take first (slots w p) @ [z] @ take n (drop first (slots w p))
               @ drop (first + n + 1) (slots w p))
      \<and> (\<forall>q. q \<noteq> p \<longrightarrow> slots w' q = slots w q)"
  using assms
proof (induction n arbitrary: w)
  case 0
  then show ?case
    by (simp add: upd_conv_take_nth_drop)
next
  case (Suc n)
  let ?L = "slots w p"
  from Suc.prems have len: "first + n + 1 < length ?L" by simp
  from Suc.prems(2) have "is_live (?L ! (first + n))" "is_live (?L ! (first + n + 1))"
    by simp_all
  then obtain y y' where y: "?L ! (first + n) = Live y" and y': "?L ! (first + n + 1) = Live y'"
    by (auto simp: is_live_conv)
  define w1 where "w1 = emit (MoveAssigned (At p (first + n + 1)))
     (store p (first + n) (Live (moved_from T y)) (store p (first + n + 1) (Live y) w))"
  have step: "move_assign_slot T p (first + n) p (first + n + 1) w = (None, w1)"
    using len y y' by (simp add: move_assign_slot_def load_def w1_def)
  let ?L1 = "?L[first + n + 1 := Live y, first + n := Live (moved_from T y)]"
  have L1: "slots w1 p = ?L1"
    by (simp add: w1_def)
  have others1: "slots w1 q = slots w q" if "q \<noteq> p" for q
    using that by (auto simp: w1_def)
  have live1: "\<forall>i. first \<le> i \<and> i \<le> first + n \<longrightarrow> is_live (slots w1 p ! i)"
    using Suc.prems(2) len by (auto simp: L1 nth_list_update)
  have "\<exists>w'. move_backward T p first n (first + n + 1) w1 = (None, w')
      \<and> length (slots w' p) = length (slots w1 p)
      \<and> is_live (slots w' p ! first)
      \<and> (\<forall>z. (slots w' p)[first := z]
             = take first (slots w1 p) @ [z] @ take n (drop first (slots w1 p))
               @ drop (first + n + 1) (slots w1 p))
      \<and> (\<forall>q. q \<noteq> p \<longrightarrow> slots w' q = slots w1 q)"
    using len live1 by (intro Suc.IH) (simp_all add: L1)
  then obtain w' where w': "move_backward T p first n (first + n + 1) w1 = (None, w')"
      "length (slots w' p) = length (slots w1 p)"
      "is_live (slots w' p ! first)"
      "\<And>z. (slots w' p)[first := z]
             = take first (slots w1 p) @ [z] @ take n (drop first (slots w1 p))
               @ drop (first + n + 1) (slots w1 p)"
      "\<And>q. q \<noteq> p \<Longrightarrow> slots w' q = slots w1 q"
    by blast
  have run: "move_backward T p first (Suc n) (first + Suc n + 1) w = (None, w')"
    using step w'(1) by (simp add: and_then_def)
  have t1: "take first ?L1 = take first ?L"
    by simp
  have t2: "take n (drop first ?L1) = take n (drop first ?L)"
    by (simp add: drop_update_swap)
  have t3: "drop (first + n + 1) ?L1 = Live y # drop (first + n + 2) ?L"
    using len by (simp add: drop_update_same)
  have t4: "take (Suc n) (drop first ?L) = take n (drop first ?L) @ [Live y]"
    using len y by (simp add: take_Suc_conv_app_nth)
  have closed: "(slots w' p)[first := z]
      = take first ?L @ [z] @ take (Suc n) (drop first ?L) @ drop (first + Suc n + 1) ?L" for z
    using w'(4) [of z] unfolding L1 t1 t2 t3 t4 by simp
  from run closed w'(2,3,5) others1 show ?case
    by (simp add: L1)
qed

section \<open>Reserve within the capacity\<close>

lemma Reserve_equal_capacity:
  assumes wf: "well_formed w v"
    and ok: "outcome (Reserve T (Capacity v) v w)
               \<notin> {Some AllocationFailure, Some ElementConstructionFailure}"
  shows "outcome (Reserve T (Capacity v) v w) = None
     \<and> size_m (result_vector (Reserve T (Capacity v) v w)) = size_m v
     \<and> Capacity (result_vector (Reserve T (Capacity v) v w)) = Capacity v
     \<and> contents (result_world (Reserve T (Capacity v) v w))
           (result_vector (Reserve T (Capacity v) v w)) = contents w v
     \<and> (if Capacity v = 0 then Reserve T (Capacity v) v w = (None, v, w)
         else begin_ptr (result_vector (Reserve T (Capacity v) v w)) = Some (next_addr w)
            \<and> begin_ptr (result_vector (Reserve T (Capacity v) v w)) \<noteq> begin_ptr v
            \<and> slots (result_world (Reserve T (Capacity v) v w)) (begin_ptr v) = [])"
proof (cases "Capacity v = 0")
  case True
  with wf have "begin_ptr v = None" "size_m v = 0"
    by (simp_all add: well_formed_def)
  with True have "data_m v = \<lparr>buffer_m = None, capacity_m = 0\<rparr>"
    by (simp add: begin_ptr_def Capacity_def)
  with True \<open>size_m v = 0\<close> have "Reserve T (Capacity v) v w = (None, v, w)"
    by (simp add: Reserve_def raw_memory_ctor_def Allocate_def Uninitialized_def
        uninitialized_copy_n_def DestroyAndSwap_def raw_memory_Swap_def raw_memory_dtor_def
        Deallocate_def begin_ptr_def Capacity_def)
  with True show ?thesis
    by (simp add: outcome_def result_vector_def result_world_def)
next
  case False
  let ?k = "Capacity v"
  let ?bp = "begin_ptr v"
  from wf False obtain a where bp: "?bp = Some a" and a: "a < next_addr w"
    and len: "length (heap w a) = ?k" and sz: "size_m v \<le> ?k"
    and live: "list_all is_live (take (size_m v) (heap w a))"
    and free: "heap w (next_addr w) = []"
    by (cases "begin_ptr v") (auto simp: well_formed_def contents_def)
  obtain r w1 where ctor: "raw_memory_ctor ?k w = (r, w1)"
    by (cases "raw_memory_ctor ?k w") auto
  have "\<exists>nd. r = Inr nd"
  proof (cases r)
    case (Inl e)
    with ctor ok raw_memory_ctor_Inl [of ?k w e w1] show ?thesis
      by (simp add: Reserve_def outcome_def)
  qed simp
  then obtain nd where r: "r = Inr nd" by blast
  from raw_memory_ctor_Inr [OF ctor [unfolded r]] False
  have nd: "nd = \<lparr>buffer_m = Some (next_addr w), capacity_m = ?k\<rparr>"
    and h1: "heap w1 = (heap w)(next_addr w := replicate ?k Raw)"
    by (cases nd; auto split: option.splits)+
  let ?d = "next_addr w"
  from a have ad: "a \<noteq> ?d" by simp
  have s1: "heap w1 a = heap w a" "heap w1 ?d = replicate ?k Raw"
    using ad by (simp_all add: h1)
  obtain e2 w2 where U: "Uninitialized T ?bp 0 (size_m v) (Some ?d) 0 w1 = (e2, w2)"
    by (cases "Uninitialized T ?bp 0 (size_m v) (Some ?d) 0 w1") auto
  have e2: "e2 \<noteq> Some ElementConstructionFailure"
  proof
    assume "e2 = Some ElementConstructionFailure"
    with ctor r nd U False have
      "outcome (Reserve T ?k v w) = Some ElementConstructionFailure"
      by (simp add: Reserve_def outcome_def)
    with ok show False by simp
  qed
  have "\<exists>w'. Uninitialized T ?bp 0 (size_m v) (Some ?d) 0 w1 = (None, w')
      \<and> slots w' (Some ?d) = take 0 (slots w1 (Some ?d))
            @ take (size_m v) (drop 0 (slots w1 ?bp))
            @ drop (0 + size_m v) (slots w1 (Some ?d))
      \<and> length (slots w' ?bp) = length (slots w1 ?bp)
      \<and> drop (0 + size_m v) (slots w' ?bp) = drop (0 + size_m v) (slots w1 ?bp)
      \<and> (\<forall>q. q \<noteq> ?bp \<longrightarrow> q \<noteq> Some ?d \<longrightarrow> slots w' q = slots w1 q)"
    using ad sz len live e2 U
    by (intro Uninitialized_spec) (simp_all add: s1 bp)
  with U have e2': "e2 = None"
    and d2: "heap w2 ?d = take (size_m v) (heap w a) @ drop (size_m v) (replicate ?k Raw)"
    by (auto simp: s1 bp)
  let ?v' = "v\<lparr>data_m := \<lparr>buffer_m = Some ?d, capacity_m = ?k\<rparr>\<rparr>"
  let ?w' = "Deallocate (Some a) (destroy_n (Some a) 0 (size_m v) w2)"
  have res: "Reserve T ?k v w = (None, ?v', ?w')"
    using ctor r nd U e2' False bp
    by (simp add: Reserve_def DestroyAndSwap_def raw_memory_Swap_def raw_memory_dtor_def
        begin_ptr_def)
  have "slots ?w' (Some ?d) = slots w2 (Some ?d)"
    using ad by (simp add: slots_Deallocate slots_destroy_n_other del: slots_Some)
  then have "contents ?w' ?v' = take (size_m v) (heap w a)"
    using sz len by (simp add: contents_def begin_ptr_def d2)
  moreover have "contents w v = take (size_m v) (heap w a)"
    by (simp add: contents_def bp)
  moreover have "slots ?w' ?bp = []"
    by (simp add: slots_Deallocate bp del: slots_Some)
  moreover have "outcome (Reserve T ?k v w) = None"
      "result_vector (Reserve T ?k v w) = ?v'" "result_world (Reserve T ?k v w) = ?w'"
    by (simp_all add: res outcome_def result_vector_def result_world_def)
  moreover have "size_m ?v' = size_m v" "Capacity ?v' = ?k" "begin_ptr ?v' = Some ?d"
    by (simp_all add: Capacity_def begin_ptr_def)
  ultimately show ?thesis
    using False ad bp by simp
qed

text \<open>
  C8, as stated, fails at \<open>k = capacity\<close>: \<^verbatim>\<open>Reserve(2)\<close> on \<open>c = [10, 20]\<close> with
  capacity 2 moves the elements to a new buffer, releases the old one and records the
  allocation, the moves, the destructor calls and the release.
\<close>

theorem Reserve_equal_capacity_reallocates:
  "2 \<le> Capacity vec_c
   \<and> \<not> (begin_ptr (result_vector (Reserve plain 2 vec_c world_cd)) = begin_ptr vec_c
        \<or> heap (result_world (Reserve plain 2 vec_c world_cd)) 1 = heap world_cd 1
        \<or> trace (result_world (Reserve plain 2 vec_c world_cd)) = trace world_cd)"
  by (simp add: model_defs numeral_unfolds example_defs)

text \<open>
  C8, amended. For \<open>k < capacity\<close>, \<^verbatim>\<open>Reserve(k)\<close> is a no-op: neither the object nor
  the world changes. For \<open>k = capacity\<close> the code reallocates: unless the allocation or an
  element copy throws, the call succeeds with size, capacity and element values unchanged,
  but the elements are in a newly allocated buffer and the old buffer is released; only
  with capacity 0 nothing is allocated and nothing changes.
\<close>

theorem Reserve_within_capacity:
  "(k < Capacity v \<longrightarrow> Reserve T k v w = (None, v, w))
   \<and> (k = Capacity v \<and> well_formed w v
        \<and> outcome (Reserve T k v w)
              \<notin> {Some AllocationFailure, Some ElementConstructionFailure} \<longrightarrow>
        outcome (Reserve T k v w) = None
      \<and> size_m (result_vector (Reserve T k v w)) = size_m v
      \<and> Capacity (result_vector (Reserve T k v w)) = Capacity v
      \<and> contents (result_world (Reserve T k v w)) (result_vector (Reserve T k v w))
          = contents w v
      \<and> (if Capacity v = 0 then Reserve T k v w = (None, v, w)
          else begin_ptr (result_vector (Reserve T k v w)) = Some (next_addr w)
             \<and> begin_ptr (result_vector (Reserve T k v w)) \<noteq> begin_ptr v
             \<and> slots (result_world (Reserve T k v w)) (begin_ptr v) = []))"
proof (intro conjI impI)
  assume "k < Capacity v"
  then show "Reserve T k v w = (None, v, w)"
    by (simp add: Reserve_def)
next
  assume a: "k = Capacity v \<and> well_formed w v
      \<and> outcome (Reserve T k v w) \<notin> {Some AllocationFailure, Some ElementConstructionFailure}"
  then have k: "k = Capacity v" and wf: "well_formed w v"
    and ok: "outcome (Reserve T (Capacity v) v w)
               \<notin> {Some AllocationFailure, Some ElementConstructionFailure}"
    by auto
  from Reserve_equal_capacity [OF wf ok]
  show "outcome (Reserve T k v w) = None"
    and "size_m (result_vector (Reserve T k v w)) = size_m v"
    and "Capacity (result_vector (Reserve T k v w)) = Capacity v"
    and "contents (result_world (Reserve T k v w)) (result_vector (Reserve T k v w))
          = contents w v"
    and "if Capacity v = 0 then Reserve T k v w = (None, v, w)
          else begin_ptr (result_vector (Reserve T k v w)) = Some (next_addr w)
             \<and> begin_ptr (result_vector (Reserve T k v w)) \<noteq> begin_ptr v
             \<and> slots (result_world (Reserve T k v w)) (begin_ptr v) = []"
    unfolding k by blast+
qed

theorem Reserve_within_capacity_witness:
  "(1::nat) < Capacity vec_c
   \<and> Reserve plain 1 vec_c world_cd = (None, vec_c, world_cd)
   \<and> 2 = Capacity vec_c \<and> well_formed world_cd vec_c
   \<and> outcome (Reserve plain 2 vec_c world_cd) = None
   \<and> size_m (result_vector (Reserve plain 2 vec_c world_cd)) = 2
   \<and> Capacity (result_vector (Reserve plain 2 vec_c world_cd)) = 2
   \<and> contents (result_world (Reserve plain 2 vec_c world_cd))
         (result_vector (Reserve plain 2 vec_c world_cd)) = [Live 10, Live 20]
   \<and> begin_ptr (result_vector (Reserve plain 2 vec_c world_cd)) = Some 3"
proof -
  have wf: "well_formed world_cd vec_c"
    by (simp add: model_defs example_defs)
  have o: "outcome (Reserve plain 2 vec_c world_cd) = None"
    by (simp add: model_defs numeral_unfolds example_defs)
  have c: "Capacity vec_c = 2" "contents world_cd vec_c = [Live 10, Live 20]"
      "next_addr world_cd = 3" "size_m vec_c = 2"
    by (simp_all add: model_defs example_defs)
  from Reserve_within_capacity [of 1 vec_c plain world_cd]
    Reserve_within_capacity [of 2 vec_c plain world_cd] wf o c
  show ?thesis
    by simp
qed

section \<open>Emplace\<close>

lemma take_prefix: "length A = m \<Longrightarrow> take m (A @ B) = A"
  by simp

lemma relocation_lists:
  assumes "pos \<le> n" "n \<le> length S" "pos < length D" "D ! pos = y"
  shows "take (Suc n) (take (Suc pos) (take pos S @ drop pos D)
           @ take (n - pos) (drop pos S) @ rest)
         = take pos S @ [y] @ take (n - pos) (drop pos S)"
proof -
  have A: "length (take pos S) = pos"
    using assms by simp
  have "take (Suc pos) (take pos S @ drop pos D) = take pos S @ take 1 (drop pos D)"
    using A by simp
  also have "take 1 (drop pos D) = [y]"
    using assms(3,4) by (simp add: take_Suc_conv_app_nth)
  finally have B: "take (Suc pos) (take pos S @ drop pos D) = take pos S @ [y]" .
  have "length (take pos S @ [y] @ take (n - pos) (drop pos S)) = Suc n"
    using assms by simp
  then have "take (Suc n) ((take pos S @ [y] @ take (n - pos) (drop pos S)) @ rest)
      = take pos S @ [y] @ take (n - pos) (drop pos S)"
    by (rule take_prefix)
  then show ?thesis
    unfolding B by (simp only: append_assoc)
qed

lemma shift_lists:
  assumes "pos < n" "n < length S" "S ! (n - 1) = y"
  shows "take (Suc n)
           (take pos (S[n := y, n - 1 := r]) @ [z]
            @ take (n - 1 - pos) (drop pos (S[n := y, n - 1 := r]))
            @ drop n (S[n := y, n - 1 := r]))
         = take pos S @ [z] @ take (n - pos) (drop pos S)"
proof -
  let ?L = "S[n := y, n - 1 := r]"
  have t1: "take pos ?L = take pos S"
    using assms by simp
  have t2: "take (n - 1 - pos) (drop pos ?L) = take (n - 1 - pos) (drop pos S)"
    using assms by (simp add: drop_update_swap)
  have t3: "drop n ?L = y # drop (Suc n) S"
    using assms by (simp add: drop_update_same)
  have "(drop pos S) ! (n - 1 - pos) = y"
    using assms by simp
  moreover have "n - 1 - pos < length (drop pos S)"
    using assms by simp
  ultimately have t4: "take (Suc (n - 1 - pos)) (drop pos S)
      = take (n - 1 - pos) (drop pos S) @ [y]"
    by (simp only: take_Suc_conv_app_nth)
  have t5: "Suc (n - 1 - pos) = n - pos"
    using assms by simp
  have "length (take pos S @ [z] @ take (n - 1 - pos) (drop pos S) @ [y]) = Suc n"
    using assms by simp
  then have "take (Suc n) ((take pos S @ [z] @ take (n - 1 - pos) (drop pos S) @ [y])
      @ drop (Suc n) S) = take pos S @ [z] @ take (n - 1 - pos) (drop pos S) @ [y]"
    by (rule take_prefix)
  then have "take (Suc n) (take pos S @ [z] @ take (n - 1 - pos) (drop pos S)
      @ y # drop (Suc n) S) = take pos S @ [z] @ take (Suc (n - 1 - pos)) (drop pos S)"
    by (simp only: append_assoc append_Cons append_Nil t4)
  then show ?thesis
    unfolding t1 t2 t3 t5 .
qed

lemma contents_parts:
  assumes "take n S = map Live xs" "pos \<le> n"
  shows "take pos S = map Live (take pos xs)"
    and "take (n - pos) (drop pos S) = map Live (drop pos xs)"
proof -
  have "take pos S = take pos (take n S)"
    using assms(2) by (simp add: min_def)
  then show "take pos S = map Live (take pos xs)"
    by (simp add: assms(1) take_map)
  have "take (n - pos) (drop pos S) = drop pos (take n S)"
    by (simp add: drop_take)
  then show "take (n - pos) (drop pos S) = map Live (drop pos xs)"
    by (simp add: assms(1) drop_map)
qed

lemma arg_value_fresh_buffer:
  assumes "arg_value w a = Some x" "heap w d = []" "heap w1 = (heap w)(d := l)"
  shows "arg_value w1 a = Some x"
proof (cases a)
  case (Const_ref y)
  with assms(1) show ?thesis
    by (simp add: arg_value_def)
next
  case (Rvalue y)
  with assms(1) show ?thesis
    by (simp add: arg_value_def)
next
  case (Slot_ref sp si)
  with assms(1) have ld: "load w sp si = Some x"
    by (simp add: arg_value_def)
  then have "sp \<noteq> Some d"
    using assms(2) by (auto simp: load_def)
  then have "slots w1 sp = slots w sp"
    using assms(3) by (cases sp) (simp_all add: slots_def)
  with ld Slot_ref show ?thesis
    by (simp add: arg_value_def load_eq_Some)
qed

lemma ReallocationEmplace_spec:
  assumes wf: "well_formed w v" and full: "size_m v = Capacity v"
    and pos: "pos \<le> size_m v"
    and xs: "contents w v = map Live xs"
    and x: "arg_value w a = Some x"
    and ok: "outcome (ReallocationEmplace T pos a v w)
               \<notin> {Inl AllocationFailure, Inl ElementConstructionFailure}"
  shows "outcome (ReallocationEmplace T pos a v w) = Inr (Some (next_addr w), pos)
     \<and> begin_ptr (result_vector (ReallocationEmplace T pos a v w)) = Some (next_addr w)
     \<and> size_m (result_vector (ReallocationEmplace T pos a v w)) = size_m v + 1
     \<and> contents (result_world (ReallocationEmplace T pos a v w))
           (result_vector (ReallocationEmplace T pos a v w))
         = map Live (take pos xs @ [x] @ drop pos xs)"
proof -
  let ?n = "size_m v" and ?bp = "begin_ptr v" and ?d = "next_addr w"
  let ?c = "growth_capacity ?n"
  let ?S = "slots w ?bp"
  from wf full have small: "?n < 2 ^ 63" and len: "length ?S = ?n"
    and free: "heap w ?d = []" and bpd: "?bp \<noteq> Some ?d"
    by (auto simp: well_formed_def split: option.splits)
  from xs have S: "take ?n ?S = map Live xs"
    by (simp add: contents_def)
  from small have c: "?c \<noteq> 0" "?n < ?c"
    by (simp_all add: growth_capacity_small)
  obtain r w1 where ctor: "raw_memory_ctor ?c w = (r, w1)"
    by (cases "raw_memory_ctor ?c w") auto
  have "\<exists>nd. r = Inr nd"
  proof (cases r)
    case (Inl e)
    with ctor ok raw_memory_ctor_Inl [of ?c w e w1] show ?thesis
      by (simp add: ReallocationEmplace_def outcome_def)
  qed simp
  then obtain nd where r: "r = Inr nd" by blast
  from raw_memory_ctor_Inr [OF ctor [unfolded r]] c(1)
  have nd: "nd = \<lparr>buffer_m = Some ?d, capacity_m = ?c\<rparr>"
    and h1: "heap w1 = (heap w)(?d := replicate ?c Raw)"
    by (cases nd; auto split: option.splits)+
  have S1: "slots w1 ?bp = ?S"
    using bpd h1 by (cases ?bp) (simp_all add: slots_def)
  have D1: "slots w1 (Some ?d) = replicate ?c Raw"
    by (simp add: h1)
  have x1: "arg_value w1 a = Some x"
    using x free h1 by (rule arg_value_fresh_buffer)
  \<comment> \<open>the new element\<close>
  obtain e1 w2 where C: "construct_from a (Some ?d) pos w1 = (e1, w2)"
    by (cases "construct_from a (Some ?d) pos w1") auto
  have "e1 \<noteq> Some ElementConstructionFailure"
  proof
    assume "e1 = Some ElementConstructionFailure"
    with ctor r nd C have
      "outcome (ReallocationEmplace T pos a v w) = Inl ElementConstructionFailure"
      by (simp add: ReallocationEmplace_def outcome_def and_then_def)
    with ok show False by simp
  qed
  with construct_from_spec [OF x1, of pos "Some ?d"] C pos c(2)
  have e1: "e1 = None"
    and D2: "slots w2 (Some ?d) = (replicate ?c Raw)[pos := Live x]"
    and S2: "slots w2 ?bp = ?S"
    using bpd by (auto simp: D1 S1 simp del: slots_Some)
  \<comment> \<open>the elements before the position\<close>
  obtain e2 w3 where U1: "Uninitialized T ?bp 0 pos (Some ?d) 0 w2 = (e2, w3)"
    by (cases "Uninitialized T ?bp 0 pos (Some ?d) 0 w2") auto
  have e2n: "e2 \<noteq> Some ElementConstructionFailure"
  proof
    assume "e2 = Some ElementConstructionFailure"
    with ctor r nd C e1 U1 have
      "outcome (ReallocationEmplace T pos a v w) = Inl ElementConstructionFailure"
      by (simp add: ReallocationEmplace_def outcome_def and_then_def)
    with ok show False by simp
  qed
  have live: "list_all is_live (take k (drop j ?S))" if "j + k \<le> ?n" for j k
  proof -
    have "take k (drop j ?S) = take k (drop j (take ?n ?S))"
      using that by (simp add: drop_take min_def)
    also have "\<dots> = map Live (take k (drop j xs))"
      by (simp add: S take_map drop_map)
    finally show ?thesis
      by (simp add: list_all_iff)
  qed
  have "\<exists>w'. Uninitialized T ?bp 0 pos (Some ?d) 0 w2 = (None, w')
      \<and> slots w' (Some ?d) = take 0 (slots w2 (Some ?d)) @ take pos (drop 0 (slots w2 ?bp))
            @ drop (0 + pos) (slots w2 (Some ?d))
      \<and> length (slots w' ?bp) = length (slots w2 ?bp)
      \<and> drop (0 + pos) (slots w' ?bp) = drop (0 + pos) (slots w2 ?bp)
      \<and> (\<forall>q. q \<noteq> ?bp \<longrightarrow> q \<noteq> Some ?d \<longrightarrow> slots w' q = slots w2 q)"
    using bpd pos len c(2) live [of 0 pos] e2n U1
    by (intro Uninitialized_spec) (simp_all add: S2 D2 del: slots_Some)
  with U1 have e2: "e2 = None"
    and D3: "slots w3 (Some ?d) = take pos ?S @ drop pos ((replicate ?c Raw)[pos := Live x])"
    and S3: "length (slots w3 ?bp) = ?n" "drop pos (slots w3 ?bp) = drop pos ?S"
    by (auto simp: S2 D2 len simp del: slots_Some)
  \<comment> \<open>the elements from the position on\<close>
  obtain e3 w4 where U2:
    "Uninitialized T ?bp pos (?n - pos) (Some ?d) (pos + 1) w3 = (e3, w4)"
    by (cases "Uninitialized T ?bp pos (?n - pos) (Some ?d) (pos + 1) w3") auto
  have e3n: "e3 \<noteq> Some ElementConstructionFailure"
  proof
    assume "e3 = Some ElementConstructionFailure"
    with ctor r nd C e1 U1 e2 U2 pos have
      "outcome (ReallocationEmplace T pos a v w) = Inl ElementConstructionFailure"
      by (simp add: ReallocationEmplace_def outcome_def and_then_def)
    with ok show False by simp
  qed
  have D3len: "length (slots w3 (Some ?d)) = ?c"
    using pos len c(2) by (simp add: D3 del: slots_Some)
  have "\<exists>w'. Uninitialized T ?bp pos (?n - pos) (Some ?d) (pos + 1) w3 = (None, w')
      \<and> slots w' (Some ?d) = take (pos + 1) (slots w3 (Some ?d))
            @ take (?n - pos) (drop pos (slots w3 ?bp))
            @ drop (pos + 1 + (?n - pos)) (slots w3 (Some ?d))
      \<and> length (slots w' ?bp) = length (slots w3 ?bp)
      \<and> drop (pos + (?n - pos)) (slots w' ?bp) = drop (pos + (?n - pos)) (slots w3 ?bp)
      \<and> (\<forall>q. q \<noteq> ?bp \<longrightarrow> q \<noteq> Some ?d \<longrightarrow> slots w' q = slots w3 q)"
    using bpd pos c(2) live [of pos "?n - pos"] e3n U2
    by (intro Uninitialized_spec) (simp_all add: S3 D3len del: slots_Some)
  with U2 have e3: "e3 = None"
    and D4: "slots w4 (Some ?d) = take (Suc pos) (take pos ?S
               @ drop pos ((replicate ?c Raw)[pos := Live x]))
             @ take (?n - pos) (drop pos ?S)
             @ drop (pos + 1 + (?n - pos)) (slots w3 (Some ?d))"
    by (auto simp: S3 D3 simp del: slots_Some)
  \<comment> \<open>the result\<close>
  let ?v' = "v\<lparr>data_m := nd, size_m := ?n + 1\<rparr>"
  let ?w' = "Deallocate ?bp (destroy_n ?bp 0 ?n w4)"
  have res: "ReallocationEmplace T pos a v w = (Inr (Some ?d, pos), ?v', ?w')"
    using ctor r C e1 U1 e2 U2 e3 pos
    by (simp add: ReallocationEmplace_def and_then_def DestroyAndSwap_def raw_memory_Swap_def
        raw_memory_dtor_def nd begin_ptr_def)
  have "slots ?w' (Some ?d) = slots w4 (Some ?d)"
    using bpd by (simp add: slots_Deallocate slots_destroy_n_other del: slots_Some)
  then have "contents ?w' ?v' = take (Suc ?n) (slots w4 (Some ?d))"
    by (simp add: contents_def begin_ptr_def nd del: slots_Some)
  also have "\<dots> = take pos ?S @ [Live x] @ take (?n - pos) (drop pos ?S)"
    unfolding D4 using pos len c(2)
    by (intro relocation_lists) simp_all
  also have "\<dots> = map Live (take pos xs @ [x] @ drop pos xs)"
    using contents_parts [OF S pos] by simp
  finally have "contents ?w' ?v' = map Live (take pos xs @ [x] @ drop pos xs)" .
  then show ?thesis
    by (simp add: res outcome_def result_vector_def result_world_def begin_ptr_def nd)
qed

lemma NoReallocationEmplace_spec:
  assumes wf: "well_formed w v" and room: "size_m v \<noteq> Capacity v"
    and pos: "pos \<le> size_m v"
    and xs: "contents w v = map Live xs"
    and x: "arg_value w a = Some x"
    and ok: "outcome (NoReallocationEmplace T pos a v w)
               \<notin> {Inl AllocationFailure, Inl ElementConstructionFailure}"
  shows "outcome (NoReallocationEmplace T pos a v w) = Inr (begin_ptr v, pos)
     \<and> begin_ptr (result_vector (NoReallocationEmplace T pos a v w)) = begin_ptr v
     \<and> size_m (result_vector (NoReallocationEmplace T pos a v w)) = size_m v + 1
     \<and> contents (result_world (NoReallocationEmplace T pos a v w))
           (result_vector (NoReallocationEmplace T pos a v w))
         = map Live (take pos xs @ [x] @ drop pos xs)"
proof -
  let ?n = "size_m v" and ?bp = "begin_ptr v"
  let ?S = "slots w ?bp"
  from wf room have len: "?n < length ?S"
    by (auto simp: well_formed_def)
  from xs have S: "take ?n ?S = map Live xs"
    by (simp add: contents_def)
  then have lxs: "length xs = ?n"
    using len by (metis length_map length_take min.absorb2 less_imp_le)
  show ?thesis
  proof (cases "pos = ?n")
    case True
    obtain e1 w1 where C: "construct_from a ?bp ?n w = (e1, w1)"
      by (cases "construct_from a ?bp ?n w") auto
    have "e1 \<noteq> Some ElementConstructionFailure"
    proof
      assume "e1 = Some ElementConstructionFailure"
      with C True have
        "outcome (NoReallocationEmplace T pos a v w) = Inl ElementConstructionFailure"
        by (simp add: NoReallocationEmplace_def outcome_def)
      with ok show False by simp
    qed
    with construct_from_spec [OF x len] C
    have e1: "e1 = None" and S1: "slots w1 ?bp = ?S[?n := Live x]"
      by auto
    have res: "NoReallocationEmplace T pos a v w
        = (Inr (?bp, pos), v\<lparr>size_m := ?n + 1\<rparr>, w1)"
      using C e1 True by (simp add: NoReallocationEmplace_def)
    have "contents w1 (v\<lparr>size_m := ?n + 1\<rparr>) = take (Suc ?n) (?S[?n := Live x])"
      by (simp add: contents_def begin_ptr_def S1 [unfolded begin_ptr_def])
    also have "\<dots> = take ?n ?S @ [Live x]"
      using len by (rule take_Suc_update)
    also have "\<dots> = map Live (take pos xs @ [x] @ drop pos xs)"
      using True lxs by (simp add: S)
    finally show ?thesis
      by (simp add: res outcome_def result_vector_def result_world_def begin_ptr_def)
  next
    case False
    with pos have lt: "pos < ?n" by simp
    obtain r1 w1 where L: "construct_local a w = (r1, w1)"
      by (cases "construct_local a w") auto
    have "r1 \<noteq> Inl ElementConstructionFailure"
    proof
      assume "r1 = Inl ElementConstructionFailure"
      with L False have
        "outcome (NoReallocationEmplace T pos a v w) = Inl ElementConstructionFailure"
        by (simp add: NoReallocationEmplace_def outcome_def)
      with ok show False by simp
    qed
    with construct_local_spec [OF x] L
    have r1: "r1 = Inr x" and S1: "slots w1 ?bp = ?S"
      by auto
    \<comment> \<open>the last element moves into the raw slot behind it\<close>
    have live_S: "is_live (?S ! i)" if "i < ?n" for i
    proof -
      from that have "?S ! i = take ?n ?S ! i" by simp
      with that lxs show ?thesis by (simp add: S)
    qed
    from lt live_S [of "?n - 1"] obtain y where y: "?S ! (?n - 1) = Live y"
      by (auto simp: is_live_conv)
    define w2 where "w2 = emit (MoveConstructed (At ?bp ?n))
       (store ?bp (?n - 1) (Live (moved_from T y)) (store ?bp ?n (Live y) w1))"
    have MC: "move_construct T ?bp (?n - 1) ?bp ?n w1 = (None, w2)"
      using len y by (simp add: move_construct_def load_def S1 w2_def)
    let ?L2 = "?S[?n := Live y, ?n - 1 := Live (moved_from T y)]"
    have L2: "slots w2 ?bp = ?L2"
      by (simp add: w2_def S1)
    \<comment> \<open>the elements from the position on move one slot up\<close>
    have live2: "\<forall>i. pos \<le> i \<and> i \<le> pos + (?n - 1 - pos) \<longrightarrow> is_live (slots w2 ?bp ! i)"
      using lt len live_S by (auto simp: L2 nth_list_update)
    have "\<exists>w'. move_backward T ?bp pos (?n - 1 - pos) (pos + (?n - 1 - pos) + 1) w2 = (None, w')
      \<and> length (slots w' ?bp) = length (slots w2 ?bp)
      \<and> is_live (slots w' ?bp ! pos)
      \<and> (\<forall>z. (slots w' ?bp)[pos := z]
             = take pos (slots w2 ?bp) @ [z] @ take (?n - 1 - pos) (drop pos (slots w2 ?bp))
               @ drop (pos + (?n - 1 - pos) + 1) (slots w2 ?bp))
      \<and> (\<forall>q. q \<noteq> ?bp \<longrightarrow> slots w' q = slots w2 q)"
      using lt len live2 by (intro move_backward_spec) (simp_all add: L2)
    moreover have idx: "pos + (?n - 1 - pos) + 1 = ?n"
      using lt by simp
    ultimately obtain w3 where MB:
      "move_backward T ?bp pos (?n - 1 - pos) ?n w2 = (None, w3)"
      and l3: "length (slots w3 ?bp) = length ?S"
      and live3: "is_live (slots w3 ?bp ! pos)"
      and S3: "\<And>z. (slots w3 ?bp)[pos := z]
             = take pos ?L2 @ [z] @ take (?n - 1 - pos) (drop pos ?L2) @ drop ?n ?L2"
      by (auto simp: L2)
    \<comment> \<open>the local object is assigned to the position\<close>
    from live3 obtain y3 where "slots w3 ?bp ! pos = Live y3"
      by (auto simp: is_live_conv)
    then have MA: "move_assign_value x ?bp pos w3
        = (None, emit (MoveAssigned (At ?bp pos)) (store ?bp pos (Live x) w3))"
      using lt len l3 by (simp add: move_assign_value_def load_def)
    let ?w' = "emit (Destroyed Local) (emit (MoveAssigned (At ?bp pos))
                 (store ?bp pos (Live x) w3))"
    have res: "NoReallocationEmplace T pos a v w
        = (Inr (?bp, pos), v\<lparr>size_m := ?n + 1\<rparr>, ?w')"
      using L r1 False lt MC MB MA
      by (simp add: NoReallocationEmplace_def and_then_def)
    have "contents ?w' (v\<lparr>size_m := ?n + 1\<rparr>)
        = take (Suc ?n) ((slots w3 ?bp)[pos := Live x])"
      by (simp add: contents_def begin_ptr_def)
    also have "\<dots> = take pos ?S @ [Live x] @ take (?n - pos) (drop pos ?S)"
      unfolding S3 using lt len y by (intro shift_lists) simp_all
    also have "\<dots> = map Live (take pos xs @ [x] @ drop pos xs)"
      using contents_parts [OF S pos] by simp
    finally show ?thesis
      by (simp add: res outcome_def result_vector_def result_world_def begin_ptr_def)
  qed
qed

text \<open>
  C5. For a vector \<open>v\<close> with elements \<open>xs\<close> and a position \<open>k \<le> size\<close>,
  \<^verbatim>\<open>Emplace\<close> at \<open>k\<close> with an argument that denotes the value \<open>x\<close> before the call
  (a value from outside, or a reference to any live slot, also of \<open>v\<close> itself) succeeds
  unless the allocation or a copy throws: it returns the pointer to slot \<open>k\<close> of the
  vector's buffer, the size grows by one, and the elements are \<open>xs[0..k)\<close>, then \<open>x\<close>,
  then \<open>xs[k..size)\<close>. This holds in the growth branch and in the in-place branch.
\<close>

theorem Emplace_inserts:
  assumes "well_formed w v" and "pos \<le> size_m v"
    and "contents w v = map Live xs"
    and "arg_value w a = Some x"
    and "outcome (Emplace T pos a v w)
           \<notin> {Inl AllocationFailure, Inl ElementConstructionFailure}"
  shows "outcome (Emplace T pos a v w)
           = Inr (begin_ptr (result_vector (Emplace T pos a v w)), pos)
     \<and> size_m (result_vector (Emplace T pos a v w)) = size_m v + 1
     \<and> contents (result_world (Emplace T pos a v w)) (result_vector (Emplace T pos a v w))
         = map Live (take pos xs @ [x] @ drop pos xs)
     \<and> take pos (contents (result_world (Emplace T pos a v w))
                     (result_vector (Emplace T pos a v w)))
         = take pos (contents w v)
     \<and> contents (result_world (Emplace T pos a v w))
           (result_vector (Emplace T pos a v w)) ! pos = Live x
     \<and> drop (pos + 1) (contents (result_world (Emplace T pos a v w))
                           (result_vector (Emplace T pos a v w)))
         = drop pos (contents w v)"
proof -
  let ?r = "Emplace T pos a v w"
  have main: "outcome ?r = Inr (begin_ptr (result_vector ?r), pos)
     \<and> size_m (result_vector ?r) = size_m v + 1
     \<and> contents (result_world ?r) (result_vector ?r)
         = map Live (take pos xs @ [x] @ drop pos xs)"
  proof (cases "size_m v = Capacity v")
    case True
    with assms(5) have "outcome (ReallocationEmplace T pos a v w)
        \<notin> {Inl AllocationFailure, Inl ElementConstructionFailure}"
      by (simp add: Emplace_def)
    from ReallocationEmplace_spec [OF assms(1) True assms(2,3,4) this] True
    show ?thesis
      by (simp add: Emplace_def)
  next
    case False
    with assms(5) have "outcome (NoReallocationEmplace T pos a v w)
        \<notin> {Inl AllocationFailure, Inl ElementConstructionFailure}"
      by (simp add: Emplace_def)
    from NoReallocationEmplace_spec [OF assms(1) False assms(2,3,4) this] False
    show ?thesis
      by (simp add: Emplace_def)
  qed
  from assms(1,3) have "length xs = size_m v"
    by (auto simp: well_formed_def contents_def dest!: arg_cong [where f = length])
  with assms(2) have lp: "length (take pos xs) = pos"
    by simp
  let ?ys = "map Live (take pos xs @ [x] @ drop pos xs)"
  have "take pos ?ys = map Live (take pos xs)"
    using lp by (simp add: take_map)
  moreover have "?ys ! pos = Live x"
    using lp by (simp add: nth_append)
  moreover have "drop (pos + 1) ?ys = map Live (drop pos xs)"
    using lp by (simp add: drop_map)
  ultimately show ?thesis
    using main by (simp add: assms(3) take_map drop_map)
qed

theorem Emplace_inserts_witness:
  "well_formed world_cd vec_d \<and> 1 \<le> size_m vec_d
   \<and> contents world_cd vec_d = map Live [7]
   \<and> arg_value world_cd (Slot_ref (Some 2) 0) = Some 7
   \<and> outcome (Emplace plain 1 (Slot_ref (Some 2) 0) vec_d world_cd) = Inr (Some 3, 1)
   \<and> size_m (result_vector (Emplace plain 1 (Slot_ref (Some 2) 0) vec_d world_cd)) = 2
   \<and> contents (result_world (Emplace plain 1 (Slot_ref (Some 2) 0) vec_d world_cd))
         (result_vector (Emplace plain 1 (Slot_ref (Some 2) 0) vec_d world_cd))
       = [Live 7, Live 7]
   \<and> well_formed world_e vec_e \<and> 1 \<le> size_m vec_e
   \<and> contents world_e vec_e = map Live [1, 2, 3]
   \<and> arg_value world_e (Slot_ref (Some 1) 2) = Some 3
   \<and> outcome (Emplace plain 1 (Slot_ref (Some 1) 2) vec_e world_e) = Inr (Some 1, 1)
   \<and> size_m (result_vector (Emplace plain 1 (Slot_ref (Some 1) 2) vec_e world_e)) = 4
   \<and> contents (result_world (Emplace plain 1 (Slot_ref (Some 1) 2) vec_e world_e))
         (result_vector (Emplace plain 1 (Slot_ref (Some 1) 2) vec_e world_e))
       = [Live 1, Live 3, Live 2, Live 3]"
proof -
  have d: "well_formed world_cd vec_d" "1 \<le> size_m vec_d"
      "contents world_cd vec_d = map Live [7]"
      "arg_value world_cd (Slot_ref (Some 2) 0) = Some 7"
    by (simp_all add: model_defs example_defs)
  have od: "outcome (Emplace plain 1 (Slot_ref (Some 2) 0) vec_d world_cd) = Inr (Some 3, 1)"
    by (simp add: model_defs numeral_unfolds example_defs)
  have e: "well_formed world_e vec_e" "1 \<le> size_m vec_e"
      "contents world_e vec_e = map Live [1, 2, 3]"
      "arg_value world_e (Slot_ref (Some 1) 2) = Some 3"
    by (simp_all add: model_defs example_defs)
  have oe: "outcome (Emplace plain 1 (Slot_ref (Some 1) 2) vec_e world_e) = Inr (Some 1, 1)"
    by (simp add: model_defs numeral_unfolds example_defs)
  have sz: "size_m vec_d = 1" "size_m vec_e = 3"
    by (simp_all add: example_defs)
  from Emplace_inserts [OF d, of plain] Emplace_inserts [OF e, of plain] d e od oe sz
  show ?thesis
    by simp
qed

end
